theory Spec2Isabelle
  imports Complex_Main
begin

section \<open>Rounded corners of a polyline: \<^verbatim>\<open>cornrad.py\<close>\<close>

text \<open>
  The class \<^verbatim>\<open>CornerRadiusLineSet\<close> holds a list of control points \<open>(x, y, r)\<close> and a
  debug flag. Its method \<^verbatim>\<open>draw\<close> slides a window of three points over the list, computes
  for each corner the circle tangent to both segments, calls the drawing backend
  (\<^verbatim>\<open>vsk.line\<close>, \<^verbatim>\<open>vsk.arc\<close>, \<^verbatim>\<open>vsk.circle\<close>, \<^verbatim>\<open>vsk.stroke\<close>) and overwrites the corner
  with the outgoing tangent point.

  How the Python is modelled:
  \<^item> the coordinates and the radii are Python floats, as the annotations of the class
    say. A float is the real number it denotes, and arithmetic is exact: rounding,
    infinities and NaN are not modelled. \<^verbatim>\<open>math.pi\<close> is \<open>pi\<close>, the literal \<^verbatim>\<open>1e-10\<close> is
    \<open>1 / 10 ^ 10\<close>;
  \<^item> exceptions are values of the type \<open>error\<close>: \<^verbatim>\<open>/\<close> raises \<^verbatim>\<open>ZeroDivisionError\<close> on a
    zero divisor, \<^verbatim>\<open>math.sqrt\<close> and \<^verbatim>\<open>math.acos\<close> raise \<^verbatim>\<open>ValueError\<close> outside their
    domain, list indexing raises \<^verbatim>\<open>IndexError\<close> out of range, and \<^verbatim>\<open>v ** 2\<close> on a float
    raises \<^verbatim>\<open>OverflowError\<close> when the square leaves the range of a double (the one
    effect of the finite float range that is an exception and not a silent infinity);
  \<^item> the backend is not part of the repository: the model records the calls made on
    it, in order, as a list of \<open>call\<close> values that each call extends;
  \<^item> the object is a record; \<^verbatim>\<open>draw\<close> takes it, together with the calls made so far, and
    returns the exception raised (if any), the object as mutated and the calls made. An
    exception leaves the mutations and the calls made before it in place.

  With exact arithmetic a comparison goes the way the real numbers decide, which within a
  rounding error of a threshold need not be the way of the program. The statements of
  C4, C7, C9 and C10 do not depend on the values computed, that of C6 rests on the guards
  of the code, that of C5 keeps a margin to the thresholds, and that of C2 is about the
  values of one scenario.
\<close>

subsection \<open>Data\<close>

type_synonym point = "real \<times> real \<times> real"

type_synonym vec = "real \<times> real"

record CornerRadiusLineSet =
  points :: "point list"
  debug :: bool

datatype call =
    Stroke nat
  | Circle real real real
  | Line real real real real
  | Arc real real real real real real

datatype error = OverflowError | ZeroDivisionError | ValueError | IndexError

subsection \<open>Python primitives\<close>

definition and_then :: "error + 'a \<Rightarrow> ('a \<Rightarrow> error + 'b) \<Rightarrow> error + 'b" where
  "and_then m f = (case m of Inl e \<Rightarrow> Inl e | Inr v \<Rightarrow> f v)"

definition eps :: real where
  "eps = 1 / 10 ^ 10"

text \<open>
  \<^verbatim>\<open>v ** 2\<close>: the square, or \<^verbatim>\<open>OverflowError\<close> when it would round to infinity, that is
  from \<open>2 ^ 1024 - 2 ^ 970\<close> on (the largest double is \<open>2 ^ 1024 - 2 ^ 971\<close>).
\<close>

definition pow_limit :: real where
  "pow_limit = 2 ^ 1024 - 2 ^ 970"

definition float_pow2 :: "real \<Rightarrow> error + real" where
  "float_pow2 v = (if pow_limit \<le> v * v then Inl OverflowError else Inr (v * v))"

definition math_sqrt :: "real \<Rightarrow> error + real" where
  "math_sqrt v = (if v < 0 then Inl ValueError else Inr (sqrt v))"

definition math_acos :: "real \<Rightarrow> error + real" where
  "math_acos v = (if v < - 1 \<or> 1 < v then Inl ValueError else Inr (arccos v))"

definition float_div :: "real \<Rightarrow> real \<Rightarrow> error + real" where
  "float_div u v = (if v = 0 then Inl ZeroDivisionError else Inr (u / v))"

text \<open>\<^verbatim>\<open>math.atan2(y, x)\<close>: the angle of the vector \<open>(x, y)\<close>, in \<open>(- pi, pi]\<close>; \<open>0\<close> at the origin.\<close>

definition math_atan2 :: "real \<Rightarrow> real \<Rightarrow> real" where
  "math_atan2 y x =
     (if 0 < x then arctan (y / x)
      else if x < 0 then (if 0 \<le> y then arctan (y / x) + pi else arctan (y / x) - pi)
      else if 0 < y then pi / 2
      else if y < 0 then - (pi / 2)
      else 0)"

definition list_get :: "'a list \<Rightarrow> nat \<Rightarrow> error + 'a" where
  "list_get xs i = (if i < length xs then Inr (xs ! i) else Inl IndexError)"

definition list_set :: "'a list \<Rightarrow> nat \<Rightarrow> 'a \<Rightarrow> error + 'a list" where
  "list_set xs i v = (if i < length xs then Inr (xs[i := v]) else Inl IndexError)"

subsection \<open>The geometry of one corner (lines 67 to 128)\<close>

text \<open>\<^verbatim>\<open>math.sqrt(v[0]**2 + v[1]**2)\<close>, as lines 72, 73 and 112 compute it.\<close>

definition vec_length :: "vec \<Rightarrow> error + real" where
  "vec_length v =
     and_then (float_pow2 (fst v)) (\<lambda>sx.
     and_then (float_pow2 (snd v)) (\<lambda>sy.
     math_sqrt (sx + sy)))"

text \<open>
  Lines 67 to 80: the two vectors, their lengths and the unit vectors. \<open>None\<close> is the
  \<^verbatim>\<open>continue\<close> of line 77.
\<close>

definition unit_vectors :: "point \<Rightarrow> point \<Rightarrow> point \<Rightarrow> error + (vec \<times> vec) option" where
  "unit_vectors A g B =
     (case A of (Ax, Ay, r1) \<Rightarrow> case g of (gx, gy, radius) \<Rightarrow> case B of (Bx, By, r2) \<Rightarrow>
      let Ag_vector = (gx - Ax, gy - Ay);
          gB_vector = (Bx - gx, By - gy)
      in
      and_then (vec_length Ag_vector) (\<lambda>Ag_length.
      and_then (vec_length gB_vector) (\<lambda>gB_length.
      if Ag_length < eps \<or> gB_length < eps then Inr None
      else
        and_then (float_div (fst Ag_vector) Ag_length) (\<lambda>Ag_unit_x.
        and_then (float_div (snd Ag_vector) Ag_length) (\<lambda>Ag_unit_y.
        and_then (float_div (fst gB_vector) gB_length) (\<lambda>gB_unit_x.
        and_then (float_div (snd gB_vector) gB_length) (\<lambda>gB_unit_y.
        Inr (Some ((Ag_unit_x, Ag_unit_y), (gB_unit_x, gB_unit_y))))))))))"

text \<open>Lines 82 to 95: the interior angle. \<open>None\<close> is the \<^verbatim>\<open>continue\<close> of line 95.\<close>

definition interior_angle_of :: "vec \<Rightarrow> vec \<Rightarrow> error + real option" where
  "interior_angle_of Ag_unit gB_unit =
     (let neg_gB_unit = (- fst gB_unit, - snd gB_unit);
          dot_product = fst Ag_unit * fst neg_gB_unit + snd Ag_unit * snd neg_gB_unit;
          dot_product = max (- 1) (min 1 dot_product)
      in
      and_then (math_acos dot_product) (\<lambda>interior_angle.
      if interior_angle < eps \<or> interior_angle > pi - eps then Inr None
      else Inr (Some interior_angle)))"

text \<open>Lines 107 to 120: the unit bisector, with the perpendicular fallback of line 114.\<close>

definition bisector_unit_of :: "vec \<Rightarrow> vec \<Rightarrow> error + vec" where
  "bisector_unit_of Ag_unit gB_unit =
     (let bisector_x = - fst Ag_unit + fst gB_unit;
          bisector_y = - snd Ag_unit + snd gB_unit
      in
      and_then (vec_length (bisector_x, bisector_y)) (\<lambda>bisector_length.
      let fallback = bisector_length < eps;
          bisector_x = (if fallback then snd Ag_unit else bisector_x);
          bisector_y = (if fallback then - fst Ag_unit else bisector_y);
          bisector_length = (if fallback then 1 else bisector_length)
      in
      and_then (float_div bisector_x bisector_length) (\<lambda>bu_x.
      and_then (float_div bisector_y bisector_length) (\<lambda>bu_y.
      Inr (bu_x, bu_y)))))"

record corner =
  theta :: real
  t_dist :: real
  pt_a :: vec
  pt_b :: vec
  bis_unit :: vec
  c_dist :: real
  pt_c :: vec

text \<open>
  Lines 67 to 128 for the window \<open>A, g, B\<close>: the interior angle, the tangent distance, the
  tangent points \<open>a\<close> and \<open>b\<close>, the unit bisector, the center distance and the center \<open>c\<close>.
  \<open>Inr None\<close> is a skipped corner, \<open>Inl e\<close> an exception.
\<close>

definition tangent_circle :: "point \<Rightarrow> point \<Rightarrow> point \<Rightarrow> error + corner option" where
  "tangent_circle A g B =
     (case g of (gx, gy, radius) \<Rightarrow>
      and_then (unit_vectors A g B) (\<lambda>units.
      case units of None \<Rightarrow> Inr None | Some (Ag_unit, gB_unit) \<Rightarrow>
      and_then (interior_angle_of Ag_unit gB_unit) (\<lambda>angle.
      case angle of None \<Rightarrow> Inr None | Some interior_angle \<Rightarrow>
      and_then (float_div radius (tan (interior_angle / 2))) (\<lambda>tangent_distance.
      let ax = gx - tangent_distance * fst Ag_unit;
          ay = gy - tangent_distance * snd Ag_unit;
          bx = gx + tangent_distance * fst gB_unit;
          by = gy + tangent_distance * snd gB_unit
      in
      and_then (bisector_unit_of Ag_unit gB_unit) (\<lambda>bisector_unit.
      and_then (float_div radius (sin (interior_angle / 2))) (\<lambda>center_distance.
      let cx = gx + center_distance * fst bisector_unit;
          cy = gy + center_distance * snd bisector_unit
      in
      Inr (Some \<lparr>theta = interior_angle, t_dist = tangent_distance,
                  pt_a = (ax, ay), pt_b = (bx, by), bis_unit = bisector_unit,
                  c_dist = center_distance, pt_c = (cx, cy)\<rparr>)))))))"

subsection \<open>The arc angles (lines 147 to 169)\<close>

definition arc_angles :: "vec \<Rightarrow> vec \<Rightarrow> vec \<Rightarrow> real \<times> real" where
  "arc_angles a b c =
     (let ca_vector = (fst a - fst c, snd a - snd c);
          cb_vector = (fst b - fst c, snd b - snd c);
          start_angle = math_atan2 (snd ca_vector) (fst ca_vector);
          end_angle = math_atan2 (snd cb_vector) (fst cb_vector);
          cross_z = fst ca_vector * snd cb_vector - snd ca_vector * fst cb_vector;
          swapped = cross_z < 0;
          start_angle' = (if swapped then end_angle else start_angle);
          end_angle' = (if swapped then start_angle else end_angle);
          end_angle'' =
            (if \<bar>end_angle' - start_angle'\<bar> > pi
             then (if end_angle' > start_angle' then end_angle' - 2 * pi
                   else end_angle' + 2 * pi)
             else end_angle')
      in (start_angle', end_angle''))"

subsection \<open>Drawing\<close>

text \<open>
  \<^verbatim>\<open>_debug_draw\<close> (lines 30 to 39): the calls that a \<^verbatim>\<open>with self._debug_draw(vsk, v):\<close>
  block makes when its body makes the calls \<open>body\<close> and raises nothing.
\<close>

definition debug_draw :: "CornerRadiusLineSet \<Rightarrow> nat \<Rightarrow> call list \<Rightarrow> call list" where
  "debug_draw self stroke_value body =
     (let original_stroke = 1
      in if debug self then [Stroke stroke_value] @ body @ [Stroke original_stroke]
         else body)"

type_synonym outcome = "error option \<times> CornerRadiusLineSet \<times> call list"

text \<open>The body of the loop (lines 56 to 181) for the index \<open>i\<close>.\<close>

definition draw_window :: "nat \<Rightarrow> CornerRadiusLineSet \<Rightarrow> call list \<Rightarrow> outcome" where
  "draw_window i self vsk =
     (case list_get (points self) i of Inl e \<Rightarrow> (Some e, self, vsk) | Inr A \<Rightarrow>
     (case list_get (points self) (i + 1) of Inl e \<Rightarrow> (Some e, self, vsk) | Inr g \<Rightarrow>
     (case list_get (points self) (i + 2) of Inl e \<Rightarrow> (Some e, self, vsk) | Inr B \<Rightarrow>
     (case A of (Ax, Ay, r1) \<Rightarrow> (case g of (gx, gy, radius) \<Rightarrow> (case B of (Bx, By, r2) \<Rightarrow>
     (let vsk1 = vsk @
            (if debug self
             then debug_draw self 2 [Line Ax Ay gx gy, Line gx gy Bx By]
             else [])
      in
      (case tangent_circle A g B of
        Inl e \<Rightarrow> (Some e, self, vsk1)
      | Inr None \<Rightarrow> (None, self, vsk1)
      | Inr (Some k) \<Rightarrow>
         (case pt_a k of (ax, ay) \<Rightarrow> (case pt_b k of (bx, by) \<Rightarrow>
         (case pt_c k of (cx, cy) \<Rightarrow>
         (let vsk2 = vsk1 @
                (if debug self
                 then debug_draw self 2 [Circle cx cy radius]
                    @ debug_draw self 3 [Circle ax ay (5 / 100), Circle bx by (5 / 100)]
                    @ debug_draw self 3
                        [Line gx gy (gx + (1 / 2) * fst (bis_unit k))
                                    (gy + (1 / 2) * snd (bis_unit k))]
                 else []);
              angles = arc_angles (ax, ay) (bx, by) (cx, cy);
              vsk3 = vsk2 @
                [Line Ax Ay ax ay,
                 Arc cx cy (2 * radius) (- 2 * radius) (fst angles) (snd angles)]
                @ (if int i = int (length (points self)) - 3 then [Line bx by Bx By] else [])
          in
          if length (points self) > 1
          then (case list_get (points self) (i + 1) of
                  Inl e \<Rightarrow> (Some e, self, vsk3)
                | Inr p \<Rightarrow>
                   (case list_set (points self) (i + 1) (bx, by, snd (snd p)) of
                      Inl e \<Rightarrow> (Some e, self, vsk3)
                    | Inr ps \<Rightarrow> (None, self\<lparr>points := ps\<rparr>, vsk3)))
          else (None, self, vsk3)))))))))))))"

text \<open>The \<^verbatim>\<open>for\<close> loop of line 55 over the indices \<open>is\<close>; an exception ends it.\<close>

fun draw_loop :: "nat list \<Rightarrow> CornerRadiusLineSet \<Rightarrow> call list \<Rightarrow> outcome" where
  "draw_loop [] self vsk = (None, self, vsk)"
| "draw_loop (i # is) self vsk =
     (case draw_window i self vsk of
        (Some e, self', vsk') \<Rightarrow> (Some e, self', vsk')
      | (None, self', vsk') \<Rightarrow> draw_loop is self' vsk')"

text \<open>Lines 44 to 48: the marker circles of the debug mode.\<close>

definition debug_points :: "CornerRadiusLineSet \<Rightarrow> call list" where
  "debug_points self =
     (if debug self
      then concat (map (\<lambda>(x, y, r). debug_draw self 2 [Circle x y (1 / 10)]) (points self))
      else [])"

text \<open>\<^verbatim>\<open>draw\<close> (lines 41 to 181).\<close>

definition draw :: "CornerRadiusLineSet \<Rightarrow> call list \<Rightarrow> outcome" where
  "draw self vsk =
     (let vsk0 = vsk @ debug_points self
      in if length (points self) < 3 then (None, self, vsk0)
         else draw_loop [0 ..< nat (int (length (points self)) - 2)] self vsk0)"

text \<open>\<^verbatim>\<open>add_point\<close> and \<^verbatim>\<open>get_points\<close> (lines 22 to 28).\<close>

definition add_point :: "CornerRadiusLineSet \<Rightarrow> real \<Rightarrow> real \<Rightarrow> real \<Rightarrow> CornerRadiusLineSet" where
  "add_point self x y r = self\<lparr>points := points self @ [(x, y, r)]\<rparr>"

definition get_points :: "CornerRadiusLineSet \<Rightarrow> point list" where
  "get_points self = points self"

subsection \<open>Notions used in the statements\<close>

text \<open>The square of \<open>v\<close> is out of the range of a double: \<^verbatim>\<open>v ** 2\<close> raises.\<close>

definition overflows :: "real \<Rightarrow> bool" where
  "overflows v = (pow_limit \<le> v * v)"

text \<open>A vector of length one.\<close>

definition unit_vec :: "vec \<Rightarrow> bool" where
  "unit_vec u = (fst u * fst u + snd u * snd u = 1)"

text \<open>The radii stored in a point list, in order.\<close>

definition radii :: "point list \<Rightarrow> real list" where
  "radii ps = map (\<lambda>p. snd (snd p)) ps"

text \<open>
  The calls of lines 62 to 65 (the reference lines of the debug mode) for the window
  \<open>A, g, B\<close>, and the calls of lines 130 to 176 for a corner \<open>k\<close> that is not skipped.
\<close>

definition reference_lines :: "CornerRadiusLineSet \<Rightarrow> point \<Rightarrow> point \<Rightarrow> point \<Rightarrow> call list" where
  "reference_lines self A g B =
     (if debug self
      then debug_draw self 2 [Line (fst A) (fst (snd A)) (fst g) (fst (snd g)),
                              Line (fst g) (fst (snd g)) (fst B) (fst (snd B))]
      else [])"

definition window_calls :: "nat \<Rightarrow> CornerRadiusLineSet \<Rightarrow> point \<Rightarrow> point \<Rightarrow> point \<Rightarrow> corner \<Rightarrow> call list" where
  "window_calls i self A g B k =
     (if debug self
      then debug_draw self 2 [Circle (fst (pt_c k)) (snd (pt_c k)) (snd (snd g))]
         @ debug_draw self 3 [Circle (fst (pt_a k)) (snd (pt_a k)) (5 / 100),
                              Circle (fst (pt_b k)) (snd (pt_b k)) (5 / 100)]
         @ debug_draw self 3
             [Line (fst g) (fst (snd g)) (fst g + (1 / 2) * fst (bis_unit k))
                   (fst (snd g) + (1 / 2) * snd (bis_unit k))]
      else [])
     @ [Line (fst A) (fst (snd A)) (fst (pt_a k)) (snd (pt_a k)),
        Arc (fst (pt_c k)) (snd (pt_c k)) (2 * snd (snd g)) (- 2 * snd (snd g))
            (fst (arc_angles (pt_a k) (pt_b k) (pt_c k)))
            (snd (arc_angles (pt_a k) (pt_b k) (pt_c k)))]
     @ (if i + 3 = length (points self)
        then [Line (fst (pt_b k)) (snd (pt_b k)) (fst B) (fst (snd B))] else [])"

text \<open>The scenario of the specification: a right angle at \<open>(10, 0)\<close> with radius \<open>2\<close>.\<close>

definition example :: CornerRadiusLineSet where
  "example = \<lparr>points = [(0, 0, 0), (10, 0, 2), (10, 10, 0)], debug = False\<rparr>"

text \<open>The centers of the arcs that a list of calls draws, in order.\<close>

definition arc_centers :: "call list \<Rightarrow> vec list" where
  "arc_centers cs =
     concat (map (\<lambda>c. case c of Arc cx cy w h s e \<Rightarrow> [(cx, cy)] | _ \<Rightarrow> []) cs)"

text \<open>
  A corner whose coordinates are the double \<open>2 ^ 600\<close>: the square of the first
  difference is \<open>2 ^ 1200\<close>, out of range.
\<close>

definition huge :: real where
  "huge = 2 ^ 600"

definition overflow_example :: CornerRadiusLineSet where
  "overflow_example =
     \<lparr>points = [(0, 0, 0), (huge, 0, 1), (huge, huge, 0)], debug = False\<rparr>"

text \<open>
  The calls that draw the path: a list of calls without those made inside a
  \<^verbatim>\<open>_debug_draw\<close> block, that is from a \<^verbatim>\<open>stroke(v)\<close> with \<open>v \<noteq> 1\<close> up to the next
  \<^verbatim>\<open>stroke(1)\<close>, and without the \<^verbatim>\<open>stroke\<close> calls themselves. The flag says whether the
  list starts inside such a block; \<open>in_debug_after\<close> says whether it ends inside one.
\<close>

fun path_calls :: "bool \<Rightarrow> call list \<Rightarrow> call list" where
  "path_calls in_debug [] = []"
| "path_calls in_debug (Stroke s # cs) = path_calls (s \<noteq> 1) cs"
| "path_calls in_debug (c # cs) =
     (if in_debug then path_calls in_debug cs else c # path_calls in_debug cs)"

fun in_debug_after :: "bool \<Rightarrow> call list \<Rightarrow> bool" where
  "in_debug_after in_debug [] = in_debug"
| "in_debug_after in_debug (Stroke s # cs) = in_debug_after (s \<noteq> 1) cs"
| "in_debug_after in_debug (c # cs) = in_debug_after in_debug cs"

definition is_stroke :: "call \<Rightarrow> bool" where
  "is_stroke c = (case c of Stroke s \<Rightarrow> True | _ \<Rightarrow> False)"

definition is_line_or_arc :: "call \<Rightarrow> bool" where
  "is_line_or_arc c = (case c of Line x1 y1 x2 y2 \<Rightarrow> True | Arc cx cy w h s e \<Rightarrow> True | _ \<Rightarrow> False)"

text \<open>The calls of lines 172 to 176 alone, for a list of \<open>n\<close> points.\<close>

definition path_window_calls :: "nat \<Rightarrow> nat \<Rightarrow> point \<Rightarrow> point \<Rightarrow> point \<Rightarrow> corner \<Rightarrow> call list" where
  "path_window_calls i n A g B k =
     [Line (fst A) (fst (snd A)) (fst (pt_a k)) (snd (pt_a k)),
      Arc (fst (pt_c k)) (snd (pt_c k)) (2 * snd (snd g)) (- 2 * snd (snd g))
          (fst (arc_angles (pt_a k) (pt_b k) (pt_c k)))
          (snd (arc_angles (pt_a k) (pt_b k) (pt_c k)))]
     @ (if i + 3 = n then [Line (fst (pt_b k)) (snd (pt_b k)) (fst B) (fst (snd B))] else [])"

text \<open>
  Modelled from the spec: the settable stroke style of the backend (the library
  \<^verbatim>\<open>vsketch\<close> is not part of the repository). The style in effect after a list of calls is
  the argument of its last \<^verbatim>\<open>stroke\<close> call, or the style \<open>s\<close> in effect before when it has
  none.
\<close>

fun stroke_after :: "nat \<Rightarrow> call list \<Rightarrow> nat" where
  "stroke_after s [] = s"
| "stroke_after s (Stroke v # cs) = stroke_after v cs"
| "stroke_after s (c # cs) = stroke_after s cs"

text \<open>The length of the segment from \<open>P\<close> to \<open>Q\<close>.\<close>

definition seg_len :: "point \<Rightarrow> point \<Rightarrow> real" where
  "seg_len P Q = sqrt ((fst Q - fst P)\<^sup>2 + (fst (snd Q) - fst (snd P))\<^sup>2)"

text \<open>
  Further inputs: a square path with two rounded corners; a single point and two points
  with the debug mode; a window with a zero-length segment next to an overflowing one.
\<close>

definition square_example :: CornerRadiusLineSet where
  "square_example = \<lparr>points = [(0, 0, 0), (10, 0, 2), (10, 10, 2), (0, 10, 0)], debug = False\<rparr>"

definition marker_example :: CornerRadiusLineSet where
  "marker_example = \<lparr>points = [(0, 0, 0)], debug = True\<rparr>"

definition two_points :: CornerRadiusLineSet where
  "two_points = \<lparr>points = [(0, 0, 0), (10, 0, 2)], debug = True\<rparr>"

definition short_overflow_example :: CornerRadiusLineSet where
  "short_overflow_example = \<lparr>points = [(0, 0, 0), (0, 0, 1), (huge, 0, 0)], debug = False\<rparr>"

text \<open>
  The bounds of a window that is skipped for a short segment. The differences of the
  coordinates of two points are \<open>moderate\<close> when they are at most \<open>2 ^ 511\<close> in absolute
  value: their squares are then at most \<open>2 ^ 1022\<close>, in the range of a double, also after
  the rounding of the difference.
\<close>

definition half_range :: real where
  "half_range = 2 ^ 511"

definition moderate :: "point \<Rightarrow> point \<Rightarrow> bool" where
  "moderate P Q =
     (\<bar>fst Q - fst P\<bar> \<le> half_range \<and> \<bar>fst (snd Q) - fst (snd P)\<bar> \<le> half_range)"

text \<open>Three points with the debug mode, the first two at the same position.\<close>

definition coincident_example :: CornerRadiusLineSet where
  "coincident_example = \<lparr>points = [(0, 0, 0), (0, 0, 1), (10, 0, 0)], debug = True\<rparr>"

text \<open>
  The chaining of the corners as the specification describes it (section 4.1, steps 7
  and 8, and the accumulator of section 9): the windows are taken from left to right
  with a running previous exit point \<open>A\<close>, and the point list is never written. A corner
  \<open>g\<close> that is rounded emits the segment from \<open>A\<close> to its tangent point \<open>a\<close>, its arc and,
  in the last window, the segment from its tangent point \<open>b\<close> to \<open>B\<close>; the next window takes
  \<open>b\<close>, with the radius of \<open>g\<close>, as its \<open>A\<close>. A corner that is skipped emits nothing, and
  the next window takes \<open>g\<close> as its \<open>A\<close>. The geometry of a corner is that of
  \<open>tangent_circle\<close> and \<open>arc_angles\<close>. \<open>chain_from A ps\<close> is the exception raised (if any),
  the exit points in order (\<open>A\<close> first, the points not reached unchanged) and the calls
  that draw the path; \<open>chained_path\<close> starts it at the first point of the list.
\<close>

fun chain_from :: "point \<Rightarrow> point list \<Rightarrow> error option \<times> point list \<times> call list" where
  "chain_from A (g # B # rest) =
     (case tangent_circle A g B of
        Inl e \<Rightarrow> (Some e, A # g # B # rest, [])
      | Inr None \<Rightarrow>
          (case chain_from g (B # rest) of (e, ps, cs) \<Rightarrow> (e, A # ps, cs))
      | Inr (Some k) \<Rightarrow>
          (case chain_from (fst (pt_b k), snd (pt_b k), snd (snd g)) (B # rest) of
             (e, ps, cs) \<Rightarrow>
               (e, A # ps,
                [Line (fst A) (fst (snd A)) (fst (pt_a k)) (snd (pt_a k)),
                 Arc (fst (pt_c k)) (snd (pt_c k)) (2 * snd (snd g)) (- 2 * snd (snd g))
                     (fst (arc_angles (pt_a k) (pt_b k) (pt_c k)))
                     (snd (arc_angles (pt_a k) (pt_b k) (pt_c k)))]
                @ (if rest = [] then [Line (fst (pt_b k)) (snd (pt_b k)) (fst B) (fst (snd B))]
                   else [])
                @ cs)))"
| "chain_from A ps = (None, A # ps, [])"

definition chained_path :: "point list \<Rightarrow> error option \<times> point list \<times> call list" where
  "chained_path ps = (case ps of [] \<Rightarrow> (None, [], []) | A # qs \<Rightarrow> chain_from A qs)"

subsection \<open>Facts about the primitives and the geometry\<close>

lemma and_then_Inl [simp]: "and_then (Inl e) f = Inl e"
  by (simp add: and_then_def)

lemma and_then_Inr [simp]: "and_then (Inr v) f = f v"
  by (simp add: and_then_def)

lemma eps_pos: "0 < eps"
  by (simp add: eps_def)

lemma pow_limit_gt: "4 < pow_limit"
  by (simp add: pow_limit_def)

lemma vec_length_eq:
  "vec_length v =
     (if overflows (fst v) \<or> overflows (snd v) then Inl OverflowError
      else Inr (sqrt (fst v * fst v + snd v * snd v)))"
proof -
  have "\<not> fst v * fst v + snd v * snd v < 0"
    by (simp add: not_less)
  then show ?thesis
    by (simp add: vec_length_def float_pow2_def math_sqrt_def overflows_def)
qed

lemma draw_window_eq:
  assumes "i + 2 < length (points self)"
  shows "draw_window i self vsk =
     (let A = points self ! i; g = points self ! (i + 1); B = points self ! (i + 2) in
      case tangent_circle A g B of
        Inl e \<Rightarrow> (Some e, self, vsk @ reference_lines self A g B)
      | Inr None \<Rightarrow> (None, self, vsk @ reference_lines self A g B)
      | Inr (Some k) \<Rightarrow>
          (None, self\<lparr>points := (points self)[i + 1 := (fst (pt_b k), snd (pt_b k), snd (snd g))]\<rparr>,
           vsk @ reference_lines self A g B @ window_calls i self A g B k))"
proof -
  obtain Ax Ay r1 where A: "points self ! i = (Ax, Ay, r1)" by (cases "points self ! i") auto
  obtain gx gy r where g: "points self ! (i + 1) = (gx, gy, r)" by (cases "points self ! (i + 1)") auto
  obtain Bx By r2 where B: "points self ! (i + 2) = (Bx, By, r2)" by (cases "points self ! (i + 2)") auto
  have len: "i < length (points self)" "i + 1 < length (points self)" "Suc i < length (points self)"
      "Suc 0 < length (points self)" "Suc (Suc i) < length (points self)"
    using assms by auto
  have last: "(int i = int (length (points self)) - 3) = (i + 3 = length (points self))"
    by auto
  show ?thesis
    unfolding draw_window_def
    by (simp add: list_get_def list_set_def len A g B Let_def reference_lines_def window_calls_def last
        split: sum.splits option.splits prod.splits)
qed

lemma unit_vectors_eq:
  "unit_vectors (Ax, Ay, r1) (gx, gy, r) (Bx, By, r2) =
     (if overflows (gx - Ax) \<or> overflows (gy - Ay) \<or> overflows (Bx - gx) \<or> overflows (By - gy)
      then Inl OverflowError
      else let la = sqrt ((gx - Ax) * (gx - Ax) + (gy - Ay) * (gy - Ay));
               lb = sqrt ((Bx - gx) * (Bx - gx) + (By - gy) * (By - gy))
           in if la < eps \<or> lb < eps then Inr None
              else Inr (Some (((gx - Ax) / la, (gy - Ay) / la), ((Bx - gx) / lb, (By - gy) / lb))))"
  using eps_pos
  by (auto simp add: unit_vectors_def vec_length_eq float_div_def Let_def)

lemma normalised_unit_vec:
  assumes "0 < sqrt (x * x + y * y)"
  shows "unit_vec (x / sqrt (x * x + y * y), y / sqrt (x * x + y * y))"
proof -
  define l where "l = sqrt (x * x + y * y)"
  have nn: "0 \<le> x * x + y * y" by simp
  have sq: "l * l = x * x + y * y"
    unfolding l_def using nn by (metis real_sqrt_mult_self abs_of_nonneg)
  have l0: "l \<noteq> 0" using assms unfolding l_def by linarith
  have "x / l * (x / l) + y / l * (y / l) = (x * x + y * y) / (l * l)"
    by (simp add: add_divide_distrib)
  also have "\<dots> = 1" using l0 unfolding sq [symmetric] by simp
  finally show ?thesis by (simp add: unit_vec_def l_def)
qed

lemma unit_vectors_Some:
  assumes "unit_vectors A g B = Inr (Some (u, v))"
  shows "unit_vec u \<and> unit_vec v"
proof -
  obtain Ax Ay r1 where A: "A = (Ax, Ay, r1)" by (cases A) auto
  obtain gx gy r where g: "g = (gx, gy, r)" by (cases g) auto
  obtain Bx By r2 where B: "B = (Bx, By, r2)" by (cases B) auto
  have pos: "0 < l" if "\<not> l < eps" for l
    using that eps_pos by linarith
  show ?thesis
    using assms unfolding A g B unit_vectors_eq Let_def
    by (auto split: if_splits intro!: normalised_unit_vec pos)
qed

lemma unit_vectors_error:
  "unit_vectors A g B = Inl e \<Longrightarrow> e = OverflowError"
  by (cases A, cases g, cases B) (auto simp: unit_vectors_eq Let_def split: if_splits)

lemma interior_angle_of_eq:
  "interior_angle_of u v =
     (let th = arccos (max (- 1) (min 1 (- (fst u * fst v + snd u * snd v))))
      in if th < eps \<or> th > pi - eps then Inr None else Inr (Some th))"
proof -
  have "\<not> max (- 1) (min 1 d) < - 1" "\<not> 1 < max (- 1) (min 1 d)" for d :: real
    by auto
  then show ?thesis
    by (simp add: interior_angle_of_def math_acos_def Let_def algebra_simps)
qed

lemma interior_angle_of_Some:
  assumes "interior_angle_of u v = Inr (Some th)"
  shows "eps \<le> th \<and> th \<le> pi - eps"
  using assms by (auto simp: interior_angle_of_eq Let_def split: if_splits)

lemma interior_angle_of_no_error: "interior_angle_of u v \<noteq> Inl e"
  by (simp add: interior_angle_of_eq Let_def)

lemma half_angle_pos:
  assumes "eps \<le> th" "th \<le> pi - eps"
  shows "0 < sin (th / 2)" "0 < cos (th / 2)" "0 < tan (th / 2)"
proof -
  have a: "0 < th / 2" "th / 2 < pi / 2" using assms eps_pos by auto
  show "0 < sin (th / 2)" using a by (intro sin_gt_zero) auto
  show "0 < cos (th / 2)" using a by (intro cos_gt_zero_pi) auto
  show "0 < tan (th / 2)" using a by (intro tan_gt_zero) auto
qed

lemma unit_vec_bounds:
  assumes "unit_vec u"
  shows "\<bar>fst u\<bar> \<le> 1" "\<bar>snd u\<bar> \<le> 1"
proof -
  have "fst u * fst u \<le> 1" "snd u * snd u \<le> 1"
    using assms zero_le_square [of "fst u"] zero_le_square [of "snd u"]
    unfolding unit_vec_def by linarith+
  then have "(fst u)\<^sup>2 \<le> 1" "(snd u)\<^sup>2 \<le> 1" by (simp_all add: power2_eq_square)
  then show "\<bar>fst u\<bar> \<le> 1" "\<bar>snd u\<bar> \<le> 1" by (simp_all add: abs_square_le_1)
qed

lemma small_no_overflow:
  assumes "\<bar>x\<bar> \<le> 2"
  shows "\<not> overflows x"
proof -
  have "x * x = \<bar>x\<bar> * \<bar>x\<bar>" by simp
  also have "\<dots> \<le> 2 * 2" using assms by (intro mult_mono) auto
  finally show ?thesis using pow_limit_gt unfolding overflows_def by linarith
qed

lemma bisector_unit_of_eq:
  assumes "unit_vec u" "unit_vec v"
  shows "bisector_unit_of u v =
     (let bx = - fst u + fst v; by = - snd u + snd v; l = sqrt (bx * bx + by * by)
      in if l < eps then Inr (snd u, - fst u) else Inr (bx / l, by / l))"
proof -
  have "\<bar>- fst u + fst v\<bar> \<le> 2" "\<bar>- snd u + snd v\<bar> \<le> 2"
    using unit_vec_bounds [OF assms(1)] unit_vec_bounds [OF assms(2)] by linarith+
  then have no: "\<not> overflows (- fst u + fst v)" "\<not> overflows (- snd u + snd v)"
    by (simp_all add: small_no_overflow)
  have "l \<noteq> 0" if "\<not> l < eps" for l using that eps_pos by linarith
  then show ?thesis
    using no eps_pos unfolding bisector_unit_of_def vec_length_eq
    by (simp add: float_div_def Let_def)
qed

lemma bisector_unit_of_no_error:
  assumes "unit_vec u" "unit_vec v"
  shows "bisector_unit_of u v \<noteq> Inl e"
  unfolding bisector_unit_of_eq [OF assms] by (simp add: Let_def)

lemma tangent_circle_eq:
  "tangent_circle A (gx, gy, r) B =
     (case unit_vectors A (gx, gy, r) B of
        Inl e \<Rightarrow> Inl e
      | Inr None \<Rightarrow> Inr None
      | Inr (Some (u, v)) \<Rightarrow>
         (case interior_angle_of u v of
            Inl e \<Rightarrow> Inl e
          | Inr None \<Rightarrow> Inr None
          | Inr (Some th) \<Rightarrow>
             (case bisector_unit_of u v of
                Inl e \<Rightarrow> Inl e
              | Inr w \<Rightarrow>
                 Inr (Some \<lparr>theta = th, t_dist = r / tan (th / 2),
                   pt_a = (gx - r / tan (th / 2) * fst u, gy - r / tan (th / 2) * snd u),
                   pt_b = (gx + r / tan (th / 2) * fst v, gy + r / tan (th / 2) * snd v),
                   bis_unit = w, c_dist = r / sin (th / 2),
                   pt_c = (gx + r / sin (th / 2) * fst w, gy + r / sin (th / 2) * snd w)\<rparr>))))"
proof (cases "unit_vectors A (gx, gy, r) B")
  case (Inl e)
  then show ?thesis by (simp add: tangent_circle_def)
next
  case (Inr units)
  show ?thesis
  proof (cases units)
    case None
    with Inr show ?thesis by (simp add: tangent_circle_def)
  next
    case (Some uv)
    obtain u v where uv: "uv = (u, v)" by (cases uv) auto
    show ?thesis
    proof (cases "interior_angle_of u v")
      case (Inl e)
      then show ?thesis using interior_angle_of_no_error by blast
    next
      case ang: (Inr angle)
      show ?thesis
      proof (cases angle)
        case None
        with Inr Some uv ang show ?thesis by (simp add: tangent_circle_def)
      next
        case (Some th)
        have b: "eps \<le> th" "th \<le> pi - eps"
          using interior_angle_of_Some ang Some by auto
        have nz: "tan (th / 2) \<noteq> 0" "sin (th / 2) \<noteq> 0"
          using half_angle_pos [OF b] by auto
        from Inr \<open>units = Some uv\<close> uv ang Some nz show ?thesis
          by (simp add: tangent_circle_def float_div_def Let_def split: sum.splits)
      qed
    qed
  qed
qed

lemma tangent_circle_error:
  assumes "tangent_circle A g B = Inl e"
  shows "e = OverflowError"
proof -
  obtain gx gy r where g: "g = (gx, gy, r)" by (cases g) auto
  show ?thesis
    using assms unfolding g tangent_circle_eq
    by (auto split: sum.splits option.splits prod.splits
        dest: unit_vectors_error unit_vectors_Some
        simp: interior_angle_of_no_error bisector_unit_of_no_error)
qed

lemma draw_window_oob:
  assumes "\<not> i + 2 < length (points self)"
  shows "draw_window i self vsk = (Some IndexError, self, vsk)"
  using assms unfolding draw_window_def list_get_def
  by (auto split: sum.splits)

lemma draw_window_error:
  assumes "draw_window i self vsk = (Some e, self', vsk')" "i + 2 < length (points self)"
  shows "e = OverflowError"
  using assms(1) unfolding draw_window_eq [OF assms(2)] Let_def
  by (auto split: sum.splits option.splits dest: tangent_circle_error)

lemma radii_update:
  assumes "j < length ps"
  shows "radii (ps[j := (x, y, snd (snd (ps ! j)))]) = radii ps"
  using assms by (simp add: radii_def map_update list_eq_iff_nth_eq nth_list_update)

lemma draw_window_frame:
  assumes "draw_window i self vsk = (e, self', vsk')"
  shows "length (points self') = length (points self) \<and> debug self' = debug self
       \<and> radii (points self') = radii (points self)
       \<and> (\<forall>j. j \<noteq> i + 1 \<longrightarrow> points self' ! j = points self ! j)"
proof (cases "i + 2 < length (points self)")
  case False
  with assms show ?thesis by (simp add: draw_window_oob)
next
  case True
  then have j: "i + 1 < length (points self)" by simp
  show ?thesis
    using assms radii_update [OF j] unfolding draw_window_eq [OF True] Let_def
    by (auto split: sum.splits option.splits)
qed

lemma draw_loop_frame:
  assumes "draw_loop is self vsk = (e, self', vsk')"
  shows "length (points self') = length (points self) \<and> debug self' = debug self
       \<and> radii (points self') = radii (points self)
       \<and> (\<forall>j. j \<notin> Suc ` set is \<longrightarrow> points self' ! j = points self ! j)"
  using assms
proof (induction "is" arbitrary: self vsk)
  case Nil
  then show ?case by simp
next
  case (Cons i "is")
  obtain e1 s1 v1 where w: "draw_window i self vsk = (e1, s1, v1)"
    by (cases "draw_window i self vsk") auto
  note f = draw_window_frame [OF w]
  show ?case
  proof (cases e1)
    case None
    with Cons.prems w have "draw_loop is s1 v1 = (e, self', vsk')" by simp
    from Cons.IH [OF this] f show ?thesis by auto
  next
    case (Some err)
    with Cons.prems w have "self' = s1" by simp
    with f show ?thesis by auto
  qed
qed

lemma draw_loop_error:
  assumes "draw_loop is self vsk = (Some e, self', vsk')"
    and "\<forall>i \<in> set is. i + 2 < length (points self)"
  shows "e = OverflowError"
  using assms
proof (induction "is" arbitrary: self vsk)
  case Nil
  then show ?case by simp
next
  case (Cons i "is")
  obtain e1 s1 v1 where w: "draw_window i self vsk = (e1, s1, v1)"
    by (cases "draw_window i self vsk") auto
  show ?case
  proof (cases e1)
    case None
    with Cons.prems w have l: "draw_loop is s1 v1 = (Some e, self', vsk')" by simp
    have "length (points s1) = length (points self)"
      using draw_window_frame [OF w] by simp
    with Cons.prems(2) have "\<forall>i\<in>set is. i + 2 < length (points s1)" by simp
    from Cons.IH [OF l this] show ?thesis .
  next
    case (Some err)
    with Cons.prems w have "err = e" by simp
    with Some w Cons.prems(2) show ?thesis
      using draw_window_error [of i self vsk e s1 v1] by simp
  qed
qed

lemma draw_error:
  assumes "draw self vsk = (Some e, self', vsk')"
  shows "e = OverflowError"
proof -
  have r: "\<forall>i \<in> set [0 ..< nat (int (length (points self)) - 2)]. i + 2 < length (points self)"
    by auto
  show ?thesis
    using assms draw_loop_error [OF _ r] unfolding draw_def Let_def
    by (auto split: if_splits)
qed

lemma draw_frame:
  assumes "draw self vsk = (e, self', vsk')"
  shows "length (points self') = length (points self) \<and> debug self' = debug self
       \<and> radii (points self') = radii (points self)
       \<and> (\<forall>j. j = 0 \<or> length (points self) \<le> j + 1 \<longrightarrow> points self' ! j = points self ! j)"
proof (cases "length (points self) < 3")
  case True
  with assms show ?thesis by (simp add: draw_def Let_def)
next
  case False
  with assms have l: "draw_loop [0 ..< nat (int (length (points self)) - 2)] self
      (vsk @ debug_points self) = (e, self', vsk')"
    by (simp add: draw_def Let_def)
  have "j \<notin> Suc ` set [0 ..< nat (int (length (points self)) - 2)]"
    if "j = 0 \<or> length (points self) \<le> j + 1" for j
    using that by auto
  with draw_loop_frame [OF l] show ?thesis by blast
qed

lemma sqrt_100: "sqrt 100 = 10"
  using real_sqrt_abs [of 10] by simp

lemma no_overflow_10: "\<not> overflows 10" "\<not> overflows 0"
  by (simp_all add: overflows_def pow_limit_def)

lemma eps_lt_pi: "eps < pi / 2" "pi / 2 < pi - eps"
  using pi_ge_two by (simp_all add: eps_def)

lemma unit_vectors_example:
  "unit_vectors (0, 0, r1) (10, 0, 2) (10, 10, r2) = Inr (Some ((1, 0), (0, 1)))"
  by (simp add: unit_vectors_eq no_overflow_10 sqrt_100 eps_def Let_def)

lemma interior_angle_example: "interior_angle_of (1, 0) (0, 1) = Inr (Some (pi / 2))"
  using eps_lt_pi by (simp add: interior_angle_of_eq Let_def)

lemma unit_vec_example: "unit_vec (1, 0)" "unit_vec (0, 1)"
  by (simp_all add: unit_vec_def)

lemma bisector_example: "bisector_unit_of (1, 0) (0, 1) = Inr (- 1 / sqrt 2, 1 / sqrt 2)"
proof -
  have "1 \<le> sqrt 2" by simp
  moreover have "eps < 1" by (simp add: eps_def)
  ultimately have "\<not> sqrt 2 < eps" by linarith
  then show ?thesis
    by (simp add: bisector_unit_of_eq unit_vec_example Let_def)
qed

lemma tangent_circle_example:
  "tangent_circle (0, 0, r1) (10, 0, 2) (10, 10, r2) =
     Inr (Some \<lparr>theta = pi / 2, t_dist = 2, pt_a = (8, 0), pt_b = (10, 2),
                 bis_unit = (- 1 / sqrt 2, 1 / sqrt 2), c_dist = 2 * sqrt 2, pt_c = (8, 2)\<rparr>)"
proof -
  have h: "pi / 2 / 2 = pi / 4" by simp
  have s: "4 / sqrt 2 = 2 * sqrt 2"
    by (simp add: field_simps)
  show ?thesis
    by (simp add: tangent_circle_eq unit_vectors_example interior_angle_example
        bisector_example h tan_45 sin_45 s)
qed

lemma arc_angles_example: "arc_angles (8, 0) (10, 2) (8, 2) = (- (pi / 2), 0)"
  by (simp add: arc_angles_def math_atan2_def Let_def)

lemma draw_example:
  "draw example [] =
     (None, \<lparr>points = [(0, 0, 0), (10, 2, 2), (10, 10, 0)], debug = False\<rparr>,
      [Line 0 0 8 0, Arc 8 2 4 (- 4) (- (pi / 2)) 0, Line 10 2 10 10])"
proof -
  have u: "[0 ..< nat (int (length (points example)) - 2)] = [0]"
    by (simp add: example_def)
  have w: "draw_window 0 example [] =
     (None, \<lparr>points = [(0, 0, 0), (10, 2, 2), (10, 10, 0)], debug = False\<rparr>,
      [Line 0 0 8 0, Arc 8 2 4 (- 4) (- (pi / 2)) 0, Line 10 2 10 10])"
    by (subst draw_window_eq)
       (simp_all add: example_def Let_def tangent_circle_example reference_lines_def
          window_calls_def arc_angles_example)
  have "length (points example) = 3" "debug_points example = []"
    by (simp_all add: example_def debug_points_def)
  then show ?thesis
    unfolding draw_def Let_def u by (simp add: w)
qed

lemma half_angle_of_corner:
  assumes "tangent_circle A g B = Inr (Some k)"
  shows "eps \<le> theta k" "theta k \<le> pi - eps"
proof -
  obtain gx gy r where g: "g = (gx, gy, r)" by (cases g) auto
  from assms obtain u v where "interior_angle_of u v = Inr (Some (theta k))"
    unfolding g tangent_circle_eq
    by (auto split: sum.splits option.splits prod.splits)
  then show "eps \<le> theta k" "theta k \<le> pi - eps"
    using interior_angle_of_Some by auto
qed

lemma overflows_huge: "overflows huge"
  by (simp add: overflows_def pow_limit_def huge_def)

lemma draw_overflow_example:
  "draw overflow_example [] = (Some OverflowError, overflow_example, [])"
proof -
  have u: "[0 ..< nat (int (length (points overflow_example)) - 2)] = [0]"
    by (simp add: overflow_example_def)
  have t: "tangent_circle (0, 0, 0) (huge, 0, 1) (huge, huge, 0) = Inl OverflowError"
    using overflows_huge by (simp add: tangent_circle_eq unit_vectors_eq)
  have w: "draw_window 0 overflow_example [] = (Some OverflowError, overflow_example, [])"
    by (subst draw_window_eq)
       (simp_all add: overflow_example_def Let_def t reference_lines_def)
  have "length (points overflow_example) = 3" "debug_points overflow_example = []"
    by (simp_all add: overflow_example_def debug_points_def)
  then show ?thesis
    unfolding draw_def Let_def u by (simp add: w)
qed

lemma sqrt_64: "sqrt 64 = 8"
  using real_sqrt_abs [of 8] by simp

lemma no_overflow_8: "\<not> overflows 8" "\<not> overflows (- 10)"
  by (simp_all add: overflows_def pow_limit_def)

lemma tangent_circle_example2:
  "tangent_circle (10, 2, r1) (10, 10, 2) (0, 10, r2) =
     Inr (Some \<lparr>theta = pi / 2, t_dist = 2, pt_a = (10, 8), pt_b = (8, 10),
                 bis_unit = (- 1 / sqrt 2, - 1 / sqrt 2), c_dist = 2 * sqrt 2, pt_c = (8, 8)\<rparr>)"
proof -
  have u: "unit_vectors (10, 2, r1) (10, 10, 2) (0, 10, r2) = Inr (Some ((0, 1), (- 1, 0)))"
    by (simp add: unit_vectors_eq no_overflow_10 no_overflow_8 sqrt_100 sqrt_64 eps_def Let_def)
  have a: "interior_angle_of (0, 1) (- 1, 0) = Inr (Some (pi / 2))"
    using eps_lt_pi by (simp add: interior_angle_of_eq Let_def)
  have un: "unit_vec (0, 1)" "unit_vec (- 1, 0)" by (simp_all add: unit_vec_def)
  have "1 \<le> sqrt 2" by simp
  moreover have "eps < 1" by (simp add: eps_def)
  ultimately have "\<not> sqrt 2 < eps" by linarith
  then have b: "bisector_unit_of (0, 1) (- 1, 0) = Inr (- 1 / sqrt 2, - 1 / sqrt 2)"
    by (simp add: bisector_unit_of_eq un Let_def)
  have h: "pi / 2 / 2 = pi / 4" by simp
  have s: "4 / sqrt 2 = 2 * sqrt 2" by (simp add: field_simps)
  show ?thesis
    by (simp add: tangent_circle_eq u a b h tan_45 sin_45 s)
qed

lemma arc_angles_example2: "arc_angles (10, 8) (8, 10) (8, 8) = (0, pi / 2)"
  by (simp add: arc_angles_def math_atan2_def Let_def)

lemma path_calls_append:
  "path_calls d (xs @ ys) = path_calls d xs @ path_calls (in_debug_after d xs) ys"
  by (induction d xs rule: path_calls.induct) auto

lemma in_debug_after_append:
  "in_debug_after d (xs @ ys) = in_debug_after (in_debug_after d xs) ys"
  by (induction d xs rule: in_debug_after.induct) auto

lemma path_calls_inside: 
  assumes "\<forall>c \<in> set body. \<not> is_stroke c"
  shows "path_calls True body = []" "in_debug_after True body = True"
  using assms by (induction body) (auto simp: is_stroke_def split: call.splits)

lemma debug_draw_on:
  assumes "debug self" "\<forall>c \<in> set body. \<not> is_stroke c" "v \<noteq> 1"
  shows "path_calls False (debug_draw self v body) = []"
    "in_debug_after False (debug_draw self v body) = False"
  using assms path_calls_inside [OF assms(2)]
  by (simp_all add: debug_draw_def path_calls_append in_debug_after_append)

lemma reference_lines_path:
  "path_calls False (reference_lines self A g B) = []"
  "in_debug_after False (reference_lines self A g B) = False"
  by (simp_all add: reference_lines_def debug_draw_on is_stroke_def)

lemma window_calls_path:
  "path_calls False (window_calls i self A g B k) = path_window_calls i (length (points self)) A g B k"
  "in_debug_after False (window_calls i self A g B k) = False"
  by (simp_all add: window_calls_def path_window_calls_def debug_draw_on is_stroke_def
      path_calls_append in_debug_after_append)

lemma window_calls_off:
  "\<not> debug self \<Longrightarrow> window_calls i self A g B k = path_window_calls i (length (points self)) A g B k"
  by (simp add: window_calls_def path_window_calls_def)

lemma debug_points_path:
  "path_calls False (debug_points self) = []"
  "in_debug_after False (debug_points self) = False"
proof -
  have "path_calls False (concat (map (\<lambda>(x, y, r). debug_draw self 2 [Circle x y (1 / 10)]) ps)) = []
      \<and> in_debug_after False (concat (map (\<lambda>(x, y, r). debug_draw self 2 [Circle x y (1 / 10)]) ps)) = False"
    if "debug self" for ps :: "point list"
    using that
    by (induction ps) (auto simp: path_calls_append in_debug_after_append debug_draw_on is_stroke_def)
  then show "path_calls False (debug_points self) = []"
    "in_debug_after False (debug_points self) = False"
    by (auto simp: debug_points_def)
qed

lemma draw_window_debug:
  assumes "points on = points off" "\<not> debug off"
    and "path_calls False c1 = c2" "\<not> in_debug_after False c1"
  shows "\<exists>e s1 s2 d1 d2. draw_window i on (vsk @ c1) = (e, s1, vsk @ d1)
      \<and> draw_window i off (vsk @ c2) = (e, s2, vsk @ d2)
      \<and> points s1 = points s2 \<and> debug s2 = debug off \<and> path_calls False d1 = d2
      \<and> \<not> in_debug_after False d1"
proof (cases "i + 2 < length (points on)")
  case False
  then show ?thesis using assms by (simp add: draw_window_oob)
next
  case True
  then have T: "i + 2 < length (points off)" using assms(1) by simp
  have off: "reference_lines off A g B = []" for A g B
    using assms(2) by (simp add: reference_lines_def)
  show ?thesis
    unfolding draw_window_eq [OF True] draw_window_eq [OF T] Let_def assms(1) [symmetric]
    using assms
    by (auto split: sum.splits option.splits
        simp: off path_calls_append in_debug_after_append reference_lines_path
          window_calls_path window_calls_off)
qed

lemma draw_loop_debug:
  assumes "points on = points off" "\<not> debug off"
    and "path_calls False c1 = c2" "\<not> in_debug_after False c1"
  shows "\<exists>e s1 s2 d1 d2. draw_loop is on (vsk @ c1) = (e, s1, vsk @ d1)
      \<and> draw_loop is off (vsk @ c2) = (e, s2, vsk @ d2)
      \<and> points s1 = points s2 \<and> path_calls False d1 = d2
      \<and> \<not> in_debug_after False d1"
  using assms
proof (induction "is" arbitrary: on off c1 c2)
  case Nil
  then show ?case by simp
next
  case (Cons i "is")
  from draw_window_debug [OF Cons.prems, of i vsk]
  obtain e s1 s2 d1 d2 where w: "draw_window i on (vsk @ c1) = (e, s1, vsk @ d1)"
      "draw_window i off (vsk @ c2) = (e, s2, vsk @ d2)"
      "points s1 = points s2" "debug s2 = debug off" "path_calls False d1 = d2"
      "\<not> in_debug_after False d1"
    by blast
  show ?case
  proof (cases e)
    case None
    from Cons.IH [of s1 s2 d1 d2] w Cons.prems(2)
    show ?thesis by (simp add: None)
  next
    case (Some err)
    with w show ?thesis by simp
  qed
qed

lemma stroke_after_append:
  "stroke_after s (xs @ ys) = stroke_after (stroke_after s xs) ys"
  by (induction s xs rule: stroke_after.induct) auto

lemma stroke_after_debug_draw:
  "stroke_after s (debug_draw self v body) = (if debug self then 1 else stroke_after s body)"
  by (simp add: debug_draw_def stroke_after_append)

lemma stroke_after_reference_lines:
  "stroke_after s (reference_lines self A g B) = (if debug self then 1 else s)"
  by (simp add: reference_lines_def stroke_after_debug_draw)

lemma stroke_after_window_calls:
  "stroke_after s (window_calls i self A g B k) = (if debug self then 1 else s)"
  by (simp add: window_calls_def stroke_after_debug_draw stroke_after_append)

lemma stroke_after_debug_points:
  "stroke_after s (debug_points self) = (if debug self \<and> points self \<noteq> [] then 1 else s)"
proof -
  have "stroke_after s (concat (map (\<lambda>(x, y, r). debug_draw self 2 [Circle x y (1 / 10)]) ps))
      = (if ps \<noteq> [] then 1 else s)"
    if "debug self" for ps :: "point list" and s
    using that
    by (induction ps arbitrary: s) (auto simp: stroke_after_append stroke_after_debug_draw)
  from this [of s "points self"] show ?thesis
    by (cases "debug self") (simp_all add: debug_points_def)
qed

lemma draw_window_stroke:
  assumes "draw_window i self vsk = (e, self', vsk')"
  shows "\<exists>d. vsk' = vsk @ d \<and> (stroke_after s d = s \<or> debug self \<and> stroke_after s d = 1)"
proof (cases "i + 2 < length (points self)")
  case False
  with assms show ?thesis by (simp add: draw_window_oob)
next
  case True
  show ?thesis
    using assms unfolding draw_window_eq [OF True] Let_def
    by (auto split: sum.splits option.splits
        simp: stroke_after_append stroke_after_reference_lines stroke_after_window_calls)
qed

lemma draw_loop_stroke:
  assumes "draw_loop is self vsk = (e, self', vsk')"
  shows "\<exists>d. vsk' = vsk @ d \<and> (stroke_after s d = s \<or> debug self \<and> stroke_after s d = 1)"
  using assms
proof (induction "is" arbitrary: self vsk s)
  case Nil
  then show ?case by simp
next
  case (Cons i "is")
  obtain e1 s1 v1 where w: "draw_window i self vsk = (e1, s1, v1)"
    by (cases "draw_window i self vsk") auto
  from draw_window_stroke [OF w, of s] obtain d where
    d: "v1 = vsk @ d" "stroke_after s d = s \<or> debug self \<and> stroke_after s d = 1" by blast
  have dbg: "debug s1 = debug self" using draw_window_frame [OF w] by simp
  show ?case
  proof (cases e1)
    case None
    with Cons.prems w have l: "draw_loop is s1 v1 = (e, self', vsk')" by simp
    from Cons.IH [OF l, of "stroke_after s d"] obtain d' where
      d': "vsk' = v1 @ d'" "stroke_after (stroke_after s d) d' = stroke_after s d \<or>
         debug s1 \<and> stroke_after (stroke_after s d) d' = 1" by blast
    show ?thesis
      using d d' dbg by (intro exI [of _ "d @ d'"]) (auto simp: stroke_after_append)
  next
    case (Some err)
    with Cons.prems w have "vsk' = v1" by simp
    with d show ?thesis by auto
  qed
qed

lemma draw_marker_example:
  "draw marker_example [] = (None, marker_example, [Stroke 2, Circle 0 0 (1 / 10), Stroke 1])"
  by (simp add: draw_def marker_example_def debug_points_def debug_draw_def)

lemma draw_stroke:
  assumes "draw self vsk = (e, self', vsk')"
  shows "\<exists>d. vsk' = vsk @ d
     \<and> stroke_after s d = (if debug self \<and> points self \<noteq> [] then 1 else s)"
proof (cases "length (points self) < 3")
  case True
  with assms show ?thesis
    by (auto simp: draw_def Let_def stroke_after_debug_points)
next
  case False
  then have ne: "points self \<noteq> []" by auto
  from False assms have l: "draw_loop [0 ..< nat (int (length (points self)) - 2)] self
      (vsk @ debug_points self) = (e, self', vsk')"
    by (simp add: draw_def Let_def)
  let ?s = "stroke_after s (debug_points self)"
  from draw_loop_stroke [OF l, of ?s] obtain d where
    d: "vsk' = (vsk @ debug_points self) @ d"
      "stroke_after ?s d = ?s \<or> debug self \<and> stroke_after ?s d = 1"
    by blast
  have "stroke_after s (debug_points self @ d) = (if debug self \<and> points self \<noteq> [] then 1 else s)"
    using d(2) ne by (auto simp: stroke_after_append stroke_after_debug_points)
  with d(1) show ?thesis by (intro exI [of _ "debug_points self @ d"]) simp
qed

lemma debug_points_no_path: "filter is_line_or_arc (debug_points self) = []"
proof -
  have "filter is_line_or_arc (concat (map (\<lambda>(x, y, r). debug_draw self 2 [Circle x y (1 / 10)]) ps)) = []"
    for ps :: "point list"
    by (induction ps) (auto simp: debug_draw_def is_line_or_arc_def)
  from this [of "points self"] show ?thesis
    unfolding debug_points_def by (cases "debug self") (simp_all only: if_True if_False filter.simps)
qed

lemma half_range_square: "half_range * half_range < pow_limit"
  by (simp add: half_range_def pow_limit_def)

lemma half_range_pos: "0 < half_range"
  by (simp add: half_range_def)

lemma moderate_no_overflow:
  assumes "\<bar>d\<bar> \<le> half_range"
  shows "\<not> overflows d"
proof -
  have "d * d = \<bar>d\<bar> * \<bar>d\<bar>" by simp
  also have "\<dots> \<le> half_range * half_range"
    using assms by (intro mult_mono) auto
  finally show ?thesis
    using half_range_square by (simp add: overflows_def)
qed

lemma tangent_circle_short:
  assumes "moderate A g" "moderate g B"
    and "seg_len A g < eps / 2 \<or> seg_len g B < eps / 2"
  shows "tangent_circle A g B = Inr None"
proof -
  obtain Ax Ay r1 where A: "A = (Ax, Ay, r1)" by (cases A) auto
  obtain gx gy r where g: "g = (gx, gy, r)" by (cases g) auto
  obtain Bx By r2 where B: "B = (Bx, By, r2)" by (cases B) auto
  have o: "\<not> overflows (gx - Ax)" "\<not> overflows (gy - Ay)"
      "\<not> overflows (Bx - gx)" "\<not> overflows (By - gy)"
    using assms(1,2) moderate_no_overflow unfolding A g B moderate_def by simp_all
  have s: "sqrt ((gx - Ax) * (gx - Ax) + (gy - Ay) * (gy - Ay)) < eps
      \<or> sqrt ((Bx - gx) * (Bx - gx) + (By - gy) * (By - gy)) < eps"
    using assms(3) eps_pos unfolding A g B seg_len_def by (auto simp: power2_eq_square)
  have "unit_vectors A g B = Inr None"
    unfolding A g B unit_vectors_eq using o s by (simp add: Let_def)
  then show ?thesis
    unfolding g tangent_circle_eq by simp
qed

lemma reference_lines_off: "\<not> debug self \<Longrightarrow> reference_lines self A g B = []"
  by (simp add: reference_lines_def)

lemma debug_points_off: "\<not> debug self \<Longrightarrow> debug_points self = []"
  by (simp add: debug_points_def)

lemma draw_loop_chained:
  assumes "points self = pre @ A # ps"
  shows "\<exists>d. draw_loop [length pre ..< length pre + (length ps - 1)] self vsk =
            (fst (chain_from A ps), self\<lparr>points := pre @ fst (snd (chain_from A ps))\<rparr>, vsk @ d)
          \<and> path_calls False d = snd (snd (chain_from A ps))
          \<and> \<not> in_debug_after False d
          \<and> (\<not> debug self \<longrightarrow> d = snd (snd (chain_from A ps)))"
  using assms
proof (induction A ps arbitrary: pre self vsk rule: chain_from.induct)
  case (1 A g B rest)
  let ?i = "length pre"
  have len: "?i + 2 < length (points self)" using "1.prems" by simp
  have rd: "points self ! ?i = A" "points self ! (?i + 1) = g" "points self ! (?i + 2) = B"
    using "1.prems" by (simp_all add: nth_append)
  have up: "[?i ..< ?i + (length (g # B # rest) - 1)] =
      ?i # [length (pre @ [A]) ..< length (pre @ [A]) + (length (B # rest) - 1)]"
    by (simp add: upt_rec)
  have last: "(?i + 3 = length (points self)) = (rest = [])"
    using "1.prems" by auto
  show ?case
  proof (cases "tangent_circle A g B")
    case (Inl e)
    have "draw_window ?i self vsk = (Some e, self, vsk @ reference_lines self A g B)"
      unfolding draw_window_eq [OF len] Let_def rd Inl by simp
    then show ?thesis
      unfolding up using "1.prems" Inl
      by (intro exI [of _ "reference_lines self A g B"])
         (simp add: reference_lines_path reference_lines_off)
  next
    case (Inr r)
    show ?thesis
    proof (cases r)
      case None
      have w: "draw_window ?i self vsk = (None, self, vsk @ reference_lines self A g B)"
        unfolding draw_window_eq [OF len] Let_def rd Inr None by simp
      have p: "points self = (pre @ [A]) @ g # B # rest" using "1.prems" by simp
      from "1.IH"(1) [OF Inr None p, of "vsk @ reference_lines self A g B"]
      obtain d where d: "draw_loop [length (pre @ [A]) ..< length (pre @ [A]) + (length (B # rest) - 1)] self
            (vsk @ reference_lines self A g B) =
            (fst (chain_from g (B # rest)),
             self\<lparr>points := (pre @ [A]) @ fst (snd (chain_from g (B # rest)))\<rparr>,
             (vsk @ reference_lines self A g B) @ d)"
          "path_calls False d = snd (snd (chain_from g (B # rest)))"
          "\<not> in_debug_after False d"
          "\<not> debug self \<longrightarrow> d = snd (snd (chain_from g (B # rest)))"
        by auto
      show ?thesis
        unfolding up using w d Inr None
        by (intro exI [of _ "reference_lines self A g B @ d"])
           (auto simp add: path_calls_append in_debug_after_append reference_lines_path
              reference_lines_off split: prod.splits)
    next
      case (Some k)
      let ?A' = "(fst (pt_b k), snd (pt_b k), snd (snd g))"
      let ?self1 = "self\<lparr>points := (points self)[?i + 1 := ?A']\<rparr>"
      have w: "draw_window ?i self vsk =
          (None, ?self1, vsk @ reference_lines self A g B @ window_calls ?i self A g B k)"
        unfolding draw_window_eq [OF len] Let_def rd Inr Some by simp
      have p: "points ?self1 = (pre @ [A]) @ ?A' # B # rest"
        using "1.prems" by (simp add: list_update_append)
      from "1.IH"(2) [OF Inr Some p, of "vsk @ reference_lines self A g B @ window_calls ?i self A g B k"]
      obtain d where d: "draw_loop [length (pre @ [A]) ..< length (pre @ [A]) + (length (B # rest) - 1)] ?self1
            (vsk @ reference_lines self A g B @ window_calls ?i self A g B k) =
            (fst (chain_from ?A' (B # rest)),
             ?self1\<lparr>points := (pre @ [A]) @ fst (snd (chain_from ?A' (B # rest)))\<rparr>,
             (vsk @ reference_lines self A g B @ window_calls ?i self A g B k) @ d)"
          "path_calls False d = snd (snd (chain_from ?A' (B # rest)))"
          "\<not> in_debug_after False d"
          "\<not> debug self \<longrightarrow> d = snd (snd (chain_from ?A' (B # rest)))"
        by auto
      show ?thesis
        unfolding up using w d Inr Some last
        by (intro exI [of _ "reference_lines self A g B @ window_calls ?i self A g B k @ d"])
           (auto simp add: path_calls_append in_debug_after_append reference_lines_path
              window_calls_path path_window_calls_def reference_lines_off window_calls_off
              split: prod.splits)
    qed
  qed
qed simp_all

lemma chain_from_head: "\<exists>ps'. fst (snd (chain_from A ps)) = A # ps'"
  by (cases "(A, ps)" rule: chain_from.cases)
     (auto split: sum.splits option.splits prod.splits)

lemma draw_refines_chained_path:
  "\<exists>d. draw self vsk =
         (fst (chained_path (points self)),
          self\<lparr>points := fst (snd (chained_path (points self)))\<rparr>, vsk @ d)
       \<and> path_calls False d = snd (snd (chained_path (points self)))
       \<and> (\<not> debug self \<longrightarrow> d = snd (snd (chained_path (points self))))"
proof (cases "points self")
  case Nil
  then show ?thesis
    by (simp add: draw_def Let_def chained_path_def debug_points_path debug_points_off)
next
  case (Cons A ps)
  show ?thesis
  proof (cases "length (points self) < 3")
    case True
    then have "chain_from A ps = (None, A # ps, [])"
      using Cons by (cases ps rule: list.exhaust; cases "tl ps") auto
    with True Cons show ?thesis
      by (auto simp add: draw_def Let_def chained_path_def debug_points_path debug_points_off)
  next
    case False
    have u: "[0 ..< nat (int (length (points self)) - 2)] =
        [length ([] :: point list) ..< length ([] :: point list) + (length ps - 1)]"
    proof -
      have "nat (int (length (points self)) - 2) = length ps - 1"
        using Cons False by simp
      then show ?thesis by simp
    qed
    have p: "points self = [] @ A # ps" using Cons by simp
    from draw_loop_chained [OF p, of "vsk @ debug_points self"] obtain d where
      d: "draw_loop [length ([] :: point list) ..< length ([] :: point list) + (length ps - 1)] self
            (vsk @ debug_points self) =
            (fst (chain_from A ps), self\<lparr>points := [] @ fst (snd (chain_from A ps))\<rparr>,
             (vsk @ debug_points self) @ d)"
        "path_calls False d = snd (snd (chain_from A ps))"
        "\<not> debug self \<longrightarrow> d = snd (snd (chain_from A ps))"
      by blast
    show ?thesis
      using False d unfolding draw_def Let_def u
      by (intro exI [of _ "debug_points self @ d"])
         (auto simp add: Cons chained_path_def path_calls_append debug_points_path debug_points_off)
  qed
qed

lemma chained_square:
  "chained_path (points square_example) =
     (None, [(0, 0, 0), (10, 2, 2), (8, 10, 2), (0, 10, 0)],
      [Line 0 0 8 0, Arc 8 2 4 (- 4) (- (pi / 2)) 0,
       Line 10 2 10 8, Arc 8 8 4 (- 4) 0 (pi / 2), Line 8 10 0 10])"
  by (simp add: chained_path_def square_example_def tangent_circle_example
      tangent_circle_example2 arc_angles_example arc_angles_example2)

section \<open>The claims\<close>

subsection \<open>C2: the right-angle scenario\<close>

text \<open>
  C2, as the code computes it. For the points \<open>[(0, 0, 0), (10, 0, 2), (10, 10, 0)]\<close> with
  debug disabled, \<^verbatim>\<open>draw\<close> raises nothing and makes exactly three calls: a line from
  \<open>(0, 0)\<close> to \<open>(8, 0)\<close>; an arc centered at \<open>(8, 2)\<close> with width \<open>4\<close> and height \<open>- 4\<close> (radius
  \<open>2\<close>) from the angle \<open>- pi / 2\<close> to the angle \<open>0\<close>, a quarter turn; and a line from
  \<open>(10, 2)\<close> to \<open>(10, 10)\<close>. The tangent points \<open>a = (8, 0)\<close> and \<open>b = (10, 2)\<close> are at
  distance \<open>2 / tan (pi / 4) = 2\<close> from \<open>(10, 0)\<close>, and the center is \<open>(10, 0)\<close> moved by
  \<open>2 / sin (pi / 4)\<close> along the unit bisector \<open>(- 1 / sqrt 2, 1 / sqrt 2)\<close>. The corner is
  overwritten with \<open>b\<close> and keeps its radius.
\<close>

theorem draw_example_output:
  "draw example [] =
     (None, \<lparr>points = [(0, 0, 0), (10, 2, 2), (10, 10, 0)], debug = False\<rparr>,
      [Line 0 0 8 0, Arc 8 2 4 (- 4) (- (pi / 2)) 0, Line 10 2 10 10])
   \<and> tangent_circle (0, 0, 0) (10, 0, 2) (10, 10, 0) =
       Inr (Some \<lparr>theta = pi / 2, t_dist = 2 / tan (pi / 4), pt_a = (8, 0), pt_b = (10, 2),
                 bis_unit = (- 1 / sqrt 2, 1 / sqrt 2), c_dist = 2 / sin (pi / 4),
                 pt_c = (8, 2)\<rparr>)
   \<and> 2 / tan (pi / 4) = (2 :: real)
   \<and> sqrt ((8 - 10)\<^sup>2 + (0 - 0)\<^sup>2) = 2 \<and> sqrt ((10 - 10)\<^sup>2 + (2 - 0)\<^sup>2) = 2
   \<and> sqrt ((8 - 10)\<^sup>2 + (2 - 0)\<^sup>2) = 2 / sin (pi / 4)
   \<and> (8, 2) = (10 + 2 / sin (pi / 4) * (- 1 / sqrt 2), 0 + 2 / sin (pi / 4) * (1 / sqrt 2))
   \<and> 0 - (- (pi / 2)) = pi / 2"
proof -
  have s: "4 / sqrt 2 = 2 * sqrt 2" by (simp add: field_simps)
  have e: "sqrt 8 = 2 * sqrt 2"
    using real_sqrt_mult [of 4 2] by simp
  show ?thesis
    by (simp add: draw_example tangent_circle_example tan_45 sin_45 s e)
qed

text \<open>The arc of the scenario is not centered at \<open>(8, 8)\<close>.\<close>

theorem example_center_counterexample:
  "arc_centers (snd (snd (draw example []))) \<noteq> [(8, 8)]"
  by (simp add: draw_example arc_centers_def)

subsection \<open>C6: the exceptions of \<^verbatim>\<open>draw\<close>\<close>

text \<open>
  C6, as the code behaves. Whatever the point list (radius zero or negative included),
  \<^verbatim>\<open>draw\<close> raises no \<^verbatim>\<open>ZeroDivisionError\<close>, no \<^verbatim>\<open>ValueError\<close> and no \<^verbatim>\<open>IndexError\<close>: an
  exception that it raises is an \<^verbatim>\<open>OverflowError\<close>. For every window that reaches the tangent
  distance and the center distance, the interior angle is strictly between \<open>0\<close> and \<open>pi\<close>,
  and the tangent and the sine of its half are positive.
\<close>

theorem draw_raises_only_overflow:
  "(draw self vsk = (Some e, self', vsk') \<longrightarrow> e = OverflowError)
   \<and> (tangent_circle A g B = Inr (Some k) \<longrightarrow>
        0 < theta k \<and> theta k < pi \<and> 0 < tan (theta k / 2) \<and> 0 < sin (theta k / 2))"
proof (intro conjI impI)
  assume "draw self vsk = (Some e, self', vsk')"
  then show "e = OverflowError" by (rule draw_error)
next
  assume k: "tangent_circle A g B = Inr (Some k)"
  note b = half_angle_of_corner [OF k]
  show "0 < theta k" "theta k < pi" using b eps_pos by linarith+
  show "0 < tan (theta k / 2)" "0 < sin (theta k / 2)"
    using half_angle_pos [OF b] by auto
qed

text \<open>
  The theorem at the overflowing corner (which raises \<^verbatim>\<open>OverflowError\<close>) and at the corner
  of the right-angle scenario (whose interior angle is \<open>pi / 2\<close>).
\<close>

theorem draw_raises_only_overflow_witness:
  "draw overflow_example [] = (Some OverflowError, overflow_example, [])
   \<and> tangent_circle (0, 0, 0) (10, 0, 2) (10, 10, 0) =
       Inr (Some \<lparr>theta = pi / 2, t_dist = 2, pt_a = (8, 0), pt_b = (10, 2),
                 bis_unit = (- 1 / sqrt 2, 1 / sqrt 2), c_dist = 2 * sqrt 2, pt_c = (8, 2)\<rparr>)
   \<and> 0 < pi / 2 \<and> pi / 2 < pi \<and> 0 < tan (pi / 2 / 2) \<and> 0 < sin (pi / 2 / 2)"
  using draw_raises_only_overflow [of overflow_example "[]" OverflowError overflow_example "[]"
      "(0, 0, 0)" "(10, 0, 2)" "(10, 10, 0)"
      "\<lparr>theta = pi / 2, t_dist = 2, pt_a = (8, 0), pt_b = (10, 2),
        bis_unit = (- 1 / sqrt 2, 1 / sqrt 2), c_dist = 2 * sqrt 2, pt_c = (8, 2)\<rparr>"]
    draw_overflow_example tangent_circle_example
  by simp

text \<open>
  \<^verbatim>\<open>draw\<close> raises on a list of three points with finite coordinates: at the corner
  \<open>(2 ^ 600, 0)\<close> line 72 squares \<open>2 ^ 600\<close>.
\<close>

theorem draw_overflow_counterexample:
  "fst (draw overflow_example []) = Some OverflowError"
  by (simp add: draw_overflow_example)

subsection \<open>C9: what \<^verbatim>\<open>draw\<close> leaves unchanged\<close>

text \<open>
  C9. Whatever the point list and however \<^verbatim>\<open>draw\<close> ends, the list keeps its length, every
  point keeps its radius, and a point whose stored value changed has an index from \<open>1\<close>
  to \<open>n - 2\<close>, so that the first and the last point are never modified.
\<close>

theorem draw_frame_effect:
  assumes "draw self vsk = (e, self', vsk')"
  shows "length (points self') = length (points self)
       \<and> radii (points self') = radii (points self)
       \<and> (\<forall>j. points self' ! j \<noteq> points self ! j \<longrightarrow>
             1 \<le> j \<and> j + 2 \<le> length (points self))"
proof -
  have "1 \<le> j \<and> j + 2 \<le> length (points self)"
    if "points self' ! j \<noteq> points self ! j" for j
  proof -
    from draw_frame [OF assms] that have "\<not> (j = 0 \<or> length (points self) \<le> j + 1)"
      by blast
    then show ?thesis by arith
  qed
  with draw_frame [OF assms] show ?thesis by blast
qed

text \<open>The theorem at the right-angle scenario, where the corner with index \<open>1\<close> changes.\<close>

theorem draw_frame_effect_witness:
  "draw example [] =
     (None, \<lparr>points = [(0, 0, 0), (10, 2, 2), (10, 10, 0)], debug = False\<rparr>,
      [Line 0 0 8 0, Arc 8 2 4 (- 4) (- (pi / 2)) 0, Line 10 2 10 10])
   \<and> length [(0, 0, 0), (10, 2, 2), (10, 10, 0) :: point] = length (points example)
   \<and> radii [(0, 0, 0), (10, 2, 2), (10, 10, 0)] = radii (points example)
   \<and> [(0, 0, 0), (10, 2, 2), (10, 10, 0) :: point] ! 1 \<noteq> points example ! 1
   \<and> (1 :: nat) + 2 \<le> length (points example)"
  using draw_frame_effect [OF draw_example] draw_example
  by (simp add: example_def)

subsection \<open>C4: chaining\<close>

text \<open>
  C4. Whatever the point list, \<^verbatim>\<open>draw\<close> ends as the chaining of the specification does. It
  raises the same exception, or none. It leaves the point list of the chaining: every
  corner that was rounded is overwritten with its outgoing tangent point \<open>b\<close> and keeps
  its radius, and the other points are as they were. The calls that draw its path are
  those of the chaining, in which the segment of every window starts at the exit point of
  the window before it, so at the point \<open>b\<close> of the corner before it when that corner was
  rounded; this holds along the whole list. Without the debug mode \<^verbatim>\<open>draw\<close> makes no other
  call.

  In particular, for a list of four or more points \<open>A, g, B, C, \<dots>\<close> whose first corner
  is rounded with the tangent circle \<open>k\<close>, and whose second window, read from the exit
  point \<open>b\<close> of \<open>k\<close>, is rounded with the tangent circle \<open>k2\<close>: \<^verbatim>\<open>draw\<close> leaves
  \<open>(b, radius of g)\<close> at index \<open>1\<close> and \<open>(b2, radius of B)\<close> at index \<open>2\<close>, and its path
  starts with the segment from \<open>A\<close> to \<open>a\<close>, the arc of \<open>k\<close>, the segment from \<open>b\<close> to \<open>a2\<close>
  and the arc of \<open>k2\<close>.
\<close>

theorem draw_chains:
  "(\<exists>d. draw self vsk =
         (fst (chained_path (points self)),
          self\<lparr>points := fst (snd (chained_path (points self)))\<rparr>, vsk @ d)
       \<and> path_calls False d = snd (snd (chained_path (points self)))
       \<and> (\<not> debug self \<longrightarrow> d = snd (snd (chained_path (points self)))))
   \<and> (points self = A # g # B # C # rest
       \<and> tangent_circle A g B = Inr (Some k)
       \<and> tangent_circle (fst (pt_b k), snd (pt_b k), snd (snd g)) B C = Inr (Some k2)
      \<longrightarrow> (\<exists>e ps d cs. draw self vsk =
             (e, self\<lparr>points := A # (fst (pt_b k), snd (pt_b k), snd (snd g))
                                  # (fst (pt_b k2), snd (pt_b k2), snd (snd B)) # ps\<rparr>, vsk @ d)
           \<and> path_calls False d =
               [Line (fst A) (fst (snd A)) (fst (pt_a k)) (snd (pt_a k)),
                Arc (fst (pt_c k)) (snd (pt_c k)) (2 * snd (snd g)) (- 2 * snd (snd g))
                    (fst (arc_angles (pt_a k) (pt_b k) (pt_c k)))
                    (snd (arc_angles (pt_a k) (pt_b k) (pt_c k))),
                Line (fst (pt_b k)) (snd (pt_b k)) (fst (pt_a k2)) (snd (pt_a k2)),
                Arc (fst (pt_c k2)) (snd (pt_c k2)) (2 * snd (snd B)) (- 2 * snd (snd B))
                    (fst (arc_angles (pt_a k2) (pt_b k2) (pt_c k2)))
                    (snd (arc_angles (pt_a k2) (pt_b k2) (pt_c k2)))] @ cs))"
proof (intro conjI impI)
  show r: "\<exists>d. draw self vsk =
         (fst (chained_path (points self)),
          self\<lparr>points := fst (snd (chained_path (points self)))\<rparr>, vsk @ d)
       \<and> path_calls False d = snd (snd (chained_path (points self)))
       \<and> (\<not> debug self \<longrightarrow> d = snd (snd (chained_path (points self))))"
    by (rule draw_refines_chained_path)
  assume a: "points self = A # g # B # C # rest
       \<and> tangent_circle A g B = Inr (Some k)
       \<and> tangent_circle (fst (pt_b k), snd (pt_b k), snd (snd g)) B C = Inr (Some k2)"
  let ?A1 = "(fst (pt_b k), snd (pt_b k), snd (snd g))"
  let ?A2 = "(fst (pt_b k2), snd (pt_b k2), snd (snd B))"
  obtain e ps cs where c: "chain_from ?A2 (C # rest) = (e, ps, cs)"
    by (cases "chain_from ?A2 (C # rest)") auto
  from chain_from_head [of ?A2 "C # rest"] c obtain ps' where ps: "ps = ?A2 # ps'" by auto
  have "chained_path (points self) =
      (e, A # ?A1 # ?A2 # ps',
       [Line (fst A) (fst (snd A)) (fst (pt_a k)) (snd (pt_a k)),
        Arc (fst (pt_c k)) (snd (pt_c k)) (2 * snd (snd g)) (- 2 * snd (snd g))
            (fst (arc_angles (pt_a k) (pt_b k) (pt_c k)))
            (snd (arc_angles (pt_a k) (pt_b k) (pt_c k))),
        Line (fst (pt_b k)) (snd (pt_b k)) (fst (pt_a k2)) (snd (pt_a k2)),
        Arc (fst (pt_c k2)) (snd (pt_c k2)) (2 * snd (snd B)) (- 2 * snd (snd B))
            (fst (arc_angles (pt_a k2) (pt_b k2) (pt_c k2)))
            (snd (arc_angles (pt_a k2) (pt_b k2) (pt_c k2)))]
       @ ((if rest = [] then [Line (fst (pt_b k2)) (snd (pt_b k2)) (fst C) (fst (snd C))] else [])
          @ cs))"
    using a c ps by (simp add: chained_path_def)
  with r show "\<exists>e ps d cs. draw self vsk =
             (e, self\<lparr>points := A # ?A1 # ?A2 # ps\<rparr>, vsk @ d)
           \<and> path_calls False d =
               [Line (fst A) (fst (snd A)) (fst (pt_a k)) (snd (pt_a k)),
                Arc (fst (pt_c k)) (snd (pt_c k)) (2 * snd (snd g)) (- 2 * snd (snd g))
                    (fst (arc_angles (pt_a k) (pt_b k) (pt_c k)))
                    (snd (arc_angles (pt_a k) (pt_b k) (pt_c k))),
                Line (fst (pt_b k)) (snd (pt_b k)) (fst (pt_a k2)) (snd (pt_a k2)),
                Arc (fst (pt_c k2)) (snd (pt_c k2)) (2 * snd (snd B)) (- 2 * snd (snd B))
                    (fst (arc_angles (pt_a k2) (pt_b k2) (pt_c k2)))
                    (snd (arc_angles (pt_a k2) (pt_b k2) (pt_c k2)))] @ cs"
    by auto
qed

text \<open>
  The theorem on the square path \<open>(0, 0)\<close>, \<open>(10, 0)\<close>, \<open>(10, 10)\<close>, \<open>(0, 10)\<close> with radius \<open>2\<close>
  at both corners: the first corner is overwritten with \<open>b = (10, 2)\<close>, the segment of the
  second window runs from \<open>(10, 2)\<close> to \<open>(10, 8)\<close>, and the second corner is overwritten
  with \<open>(8, 10)\<close>.
\<close>

theorem draw_chains_witness:
  "chained_path (points square_example) =
     (None, [(0, 0, 0), (10, 2, 2), (8, 10, 2), (0, 10, 0)],
      [Line 0 0 8 0, Arc 8 2 4 (- 4) (- (pi / 2)) 0,
       Line 10 2 10 8, Arc 8 8 4 (- 4) 0 (pi / 2), Line 8 10 0 10])
   \<and> debug square_example = False
   \<and> points square_example = (0, 0, 0) # (10, 0, 2) # (10, 10, 2) # (0, 10, 0) # []
   \<and> tangent_circle (0, 0, 0) (10, 0, 2) (10, 10, 2) =
       Inr (Some \<lparr>theta = pi / 2, t_dist = 2, pt_a = (8, 0), pt_b = (10, 2),
                 bis_unit = (- 1 / sqrt 2, 1 / sqrt 2), c_dist = 2 * sqrt 2, pt_c = (8, 2)\<rparr>)
   \<and> tangent_circle (10, 2, 2) (10, 10, 2) (0, 10, 0) =
       Inr (Some \<lparr>theta = pi / 2, t_dist = 2, pt_a = (10, 8), pt_b = (8, 10),
                 bis_unit = (- 1 / sqrt 2, - 1 / sqrt 2), c_dist = 2 * sqrt 2, pt_c = (8, 8)\<rparr>)
   \<and> draw square_example [] =
     (None, \<lparr>points = [(0, 0, 0), (10, 2, 2), (8, 10, 2), (0, 10, 0)], debug = False\<rparr>,
      [Line 0 0 8 0, Arc 8 2 4 (- 4) (- (pi / 2)) 0,
       Line 10 2 10 8, Arc 8 8 4 (- 4) 0 (pi / 2), Line 8 10 0 10])"
proof -
  have p: "points square_example = (0, 0, 0) # (10, 0, 2) # (10, 10, 2) # (0, 10, 0) # []"
    and d: "debug square_example = False"
    by (simp_all add: square_example_def)
  note T = draw_chains [of square_example "[]" "(0, 0, 0)" "(10, 0, 2)" "(10, 10, 2)" "(0, 10, 0)" "[]"
      "\<lparr>theta = pi / 2, t_dist = 2, pt_a = (8, 0), pt_b = (10, 2),
        bis_unit = (- 1 / sqrt 2, 1 / sqrt 2), c_dist = 2 * sqrt 2, pt_c = (8, 2)\<rparr>"
      "\<lparr>theta = pi / 2, t_dist = 2, pt_a = (10, 8), pt_b = (8, 10),
        bis_unit = (- 1 / sqrt 2, - 1 / sqrt 2), c_dist = 2 * sqrt 2, pt_c = (8, 8)\<rparr>"]
  from T d obtain c where
    c: "draw square_example [] =
         (fst (chained_path (points square_example)),
          square_example\<lparr>points := fst (snd (chained_path (points square_example)))\<rparr>, [] @ c)"
      "c = snd (snd (chained_path (points square_example)))"
    by auto
  have "draw square_example [] =
     (None, \<lparr>points = [(0, 0, 0), (10, 2, 2), (8, 10, 2), (0, 10, 0)], debug = False\<rparr>,
      [Line 0 0 8 0, Arc 8 2 4 (- 4) (- (pi / 2)) 0,
       Line 10 2 10 8, Arc 8 8 4 (- 4) 0 (pi / 2), Line 8 10 0 10])"
    unfolding c chained_square by (simp add: square_example_def)
  then show ?thesis
    using p d chained_square tangent_circle_example [of 0 2] tangent_circle_example2 [of 2 0]
    by simp
qed

subsection \<open>C10: the debug flag does not change the path\<close>

text \<open>
  C10. For any point list and any calls made before, the run with \<open>debug = True\<close> and the
  run with \<open>debug = False\<close> end the same way (the same exception or none), leave the same
  point list, and the calls of the run with the debug mode, without those made inside the
  \<^verbatim>\<open>_debug_draw\<close> blocks, are exactly the calls of the run without it, in the same order and
  with the same arguments.
\<close>

theorem draw_debug_independent:
  "\<exists>e s1 s2 d1 d2.
      draw (self\<lparr>debug := True\<rparr>) vsk = (e, s1, vsk @ d1)
    \<and> draw (self\<lparr>debug := False\<rparr>) vsk = (e, s2, vsk @ d2)
    \<and> points s1 = points s2
    \<and> path_calls False d1 = d2"
proof -
  let ?on = "self\<lparr>debug := True\<rparr>" and ?off = "self\<lparr>debug := False\<rparr>"
  have p: "points ?on = points ?off" "\<not> debug ?off" by simp_all
  have d: "debug_points ?off = []" by (simp add: debug_points_def)
  show ?thesis
  proof (cases "length (points self) < 3")
    case True
    then show ?thesis
      by (simp add: draw_def Let_def d debug_points_path)
  next
    case False
    from draw_loop_debug [OF p, of "debug_points ?on" "[]"
        "[0 ..< nat (int (length (points self)) - 2)]" vsk]
    obtain e s1 s2 d1 d2 where
      "draw_loop [0 ..< nat (int (length (points self)) - 2)] ?on (vsk @ debug_points ?on) = (e, s1, vsk @ d1)"
      "draw_loop [0 ..< nat (int (length (points self)) - 2)] ?off (vsk @ []) = (e, s2, vsk @ d2)"
      "points s1 = points s2" "path_calls False d1 = d2"
      using debug_points_path [of ?on] by auto
    with False show ?thesis
      by (simp add: draw_def Let_def d)
  qed
qed

subsection \<open>C7: the stroke style after a debug draw\<close>

text \<open>
  C7, as the code behaves. With the debug mode on, a \<^verbatim>\<open>_debug_draw\<close> block that completes
  leaves the stroke style \<open>1\<close> in effect, the constant \<^verbatim>\<open>original_stroke = 1\<close>, whatever the
  style was before it; with the debug mode off it makes no \<^verbatim>\<open>stroke\<close> call of its own. So
  the style in effect before is back after the block exactly when it was \<open>1\<close>. For the
  whole of \<^verbatim>\<open>draw\<close>: the style in effect when it ends (normally or not) is \<open>1\<close> when the debug
  mode is on and the list has a point, and the style in effect before otherwise.
\<close>

theorem debug_draw_sets_stroke_one:
  "stroke_after s (debug_draw self v body) = (if debug self then 1 else stroke_after s body)
   \<and> (draw self vsk = (e, self', vsk') \<longrightarrow>
        (\<exists>d. vsk' = vsk @ d
          \<and> stroke_after s d = (if debug self \<and> points self \<noteq> [] then 1 else s)))"
  using draw_stroke [of self vsk e self' vsk' s] by (simp add: stroke_after_debug_draw)

text \<open>The theorem for a single point with the debug mode, starting from the style \<open>1\<close>.\<close>

theorem debug_draw_sets_stroke_one_witness:
  "stroke_after 1 (debug_draw marker_example 2 [Circle 0 0 (1 / 10)]) = 1
   \<and> draw marker_example [] = (None, marker_example, [Stroke 2, Circle 0 0 (1 / 10), Stroke 1])
   \<and> stroke_after 1 [Stroke 2, Circle 0 0 (1 / 10), Stroke 1] = 1"
  using debug_draw_sets_stroke_one [of 1 marker_example 2 "[Circle 0 0 (1 / 10)]" "[]" None
      marker_example "[Stroke 2, Circle 0 0 (1 / 10), Stroke 1]"] draw_marker_example
  by (simp add: marker_example_def)

text \<open>Starting from the style \<open>5\<close>, the style after a debug draw is not \<open>5\<close>.\<close>

theorem debug_draw_restore_counterexample:
  "stroke_after 5 (debug_draw marker_example 2 [Circle 0 0 (1 / 10)]) \<noteq> 5"
  by (simp add: debug_draw_def marker_example_def)

subsection \<open>C5: degenerate inputs\<close>

text \<open>
  C5, as the code behaves. With fewer than three points \<^verbatim>\<open>draw\<close> raises nothing, leaves the
  object as it is and draws no line and no arc (only the marker circles of the debug
  mode). A window whose coordinate differences are at most \<open>2 ^ 511\<close> in absolute value
  and one of whose segments is shorter than half of \<open>1e-10\<close> raises nothing, leaves the
  point list as it is and draws nothing of the path: its only calls are the two reference
  lines of the debug mode, inside their \<^verbatim>\<open>_debug_draw\<close> block. The loop then goes on with the
  next window. The two bounds leave room for the rounding of lines 67 to 73, which the
  exact arithmetic of the model does not show: within them the squares of lines 72 and
  73 stay in the range of a double, and a rounded length stays below \<open>1e-10\<close>. Nothing is
  stated here about a window that only the angle check of line 94 can skip.
\<close>

theorem degenerate_inputs_skipped:
  "(length (points self) < 3 \<longrightarrow>
      draw self vsk = (None, self, vsk @ debug_points self)
      \<and> filter is_line_or_arc (debug_points self) = [])
   \<and> (i + 2 < length (points s)
      \<and> moderate (points s ! i) (points s ! (i + 1))
      \<and> moderate (points s ! (i + 1)) (points s ! (i + 2))
      \<and> (seg_len (points s ! i) (points s ! (i + 1)) < eps / 2
          \<or> seg_len (points s ! (i + 1)) (points s ! (i + 2)) < eps / 2) \<longrightarrow>
      draw_window i s cs =
        (None, s, cs @ reference_lines s (points s ! i) (points s ! (i + 1)) (points s ! (i + 2)))
      \<and> path_calls False
          (reference_lines s (points s ! i) (points s ! (i + 1)) (points s ! (i + 2))) = []
      \<and> draw_loop (i # is) s cs =
          draw_loop is s
            (cs @ reference_lines s (points s ! i) (points s ! (i + 1)) (points s ! (i + 2))))"
proof (intro conjI impI)
  assume "length (points self) < 3"
  then show "draw self vsk = (None, self, vsk @ debug_points self)"
    by (simp add: draw_def Let_def)
  show "filter is_line_or_arc (debug_points self) = []"
    by (rule debug_points_no_path)
next
  assume a: "i + 2 < length (points s)
      \<and> moderate (points s ! i) (points s ! (i + 1))
      \<and> moderate (points s ! (i + 1)) (points s ! (i + 2))
      \<and> (seg_len (points s ! i) (points s ! (i + 1)) < eps / 2
          \<or> seg_len (points s ! (i + 1)) (points s ! (i + 2)) < eps / 2)"
  then have t: "tangent_circle (points s ! i) (points s ! (i + 1)) (points s ! (i + 2)) = Inr None"
    using tangent_circle_short by blast
  from a have l: "i + 2 < length (points s)" by blast
  show w: "draw_window i s cs =
        (None, s, cs @ reference_lines s (points s ! i) (points s ! (i + 1)) (points s ! (i + 2)))"
    unfolding draw_window_eq [OF l] Let_def t by simp
  show "path_calls False
          (reference_lines s (points s ! i) (points s ! (i + 1)) (points s ! (i + 2))) = []"
    by (rule reference_lines_path)
  show "draw_loop (i # is) s cs =
          draw_loop is s
            (cs @ reference_lines s (points s ! i) (points s ! (i + 1)) (points s ! (i + 2)))"
    by (simp add: w)
qed

text \<open>
  The theorem for two points, and for three points of which the first two coincide (an
  incoming segment of length \<open>0\<close>), both with the debug mode.
\<close>

theorem degenerate_inputs_skipped_witness:
  "length (points two_points) < 3
   \<and> draw two_points [] =
       (None, two_points,
        [Stroke 2, Circle 0 0 (1 / 10), Stroke 1, Stroke 2, Circle 10 0 (1 / 10), Stroke 1])
   \<and> filter is_line_or_arc (debug_points two_points) = []
   \<and> 0 + 2 < length (points coincident_example)
   \<and> moderate (points coincident_example ! 0) (points coincident_example ! (0 + 1))
   \<and> moderate (points coincident_example ! (0 + 1)) (points coincident_example ! (0 + 2))
   \<and> seg_len (points coincident_example ! 0) (points coincident_example ! (0 + 1)) < eps / 2
   \<and> draw_window 0 coincident_example [] =
       (None, coincident_example, [Stroke 2, Line 0 0 0 0, Line 0 0 10 0, Stroke 1])
   \<and> path_calls False [Stroke 2, Line 0 0 0 0, Line 0 0 10 0, Stroke 1] = []
   \<and> draw_loop [0] coincident_example [] =
       (None, coincident_example, [Stroke 2, Line 0 0 0 0, Line 0 0 10 0, Stroke 1])"
proof -
  have c: "0 + 2 < length (points coincident_example)"
    "moderate (points coincident_example ! 0) (points coincident_example ! (0 + 1))"
    "moderate (points coincident_example ! (0 + 1)) (points coincident_example ! (0 + 2))"
    "seg_len (points coincident_example ! 0) (points coincident_example ! (0 + 1)) < eps / 2"
    using eps_pos half_range_pos
    by (simp_all add: coincident_example_def moderate_def seg_len_def half_range_def)
  have t: "length (points two_points) < 3" by (simp add: two_points_def)
  have r: "reference_lines coincident_example (points coincident_example ! 0)
      (points coincident_example ! (0 + 1)) (points coincident_example ! (0 + 2)) =
      [Stroke 2, Line 0 0 0 0, Line 0 0 10 0, Stroke 1]"
    by (simp add: coincident_example_def reference_lines_def debug_draw_def)
  have d: "debug_points two_points =
      [Stroke 2, Circle 0 0 (1 / 10), Stroke 1, Stroke 2, Circle 10 0 (1 / 10), Stroke 1]"
    by (simp add: two_points_def debug_points_def debug_draw_def)
  note T = degenerate_inputs_skipped [of two_points "[]" 0 coincident_example "[]" "[]"]
  from T t have A: "draw two_points [] = (None, two_points, [] @ debug_points two_points)"
    "filter is_line_or_arc (debug_points two_points) = []"
    by blast+
  from T c have B: "draw_window 0 coincident_example [] =
        (None, coincident_example, [] @ reference_lines coincident_example
          (points coincident_example ! 0) (points coincident_example ! (0 + 1))
          (points coincident_example ! (0 + 2)))"
    "path_calls False (reference_lines coincident_example
          (points coincident_example ! 0) (points coincident_example ! (0 + 1))
          (points coincident_example ! (0 + 2))) = []"
    "draw_loop [0] coincident_example [] =
        draw_loop [] coincident_example ([] @ reference_lines coincident_example
          (points coincident_example ! 0) (points coincident_example ! (0 + 1))
          (points coincident_example ! (0 + 2)))"
    by blast+
  from A B t c show ?thesis
    unfolding r d by simp
qed

text \<open>
  A window with an incoming segment of length zero that is not skipped: line 73 squares
  \<open>2 ^ 600\<close> before the check of line 75, and \<^verbatim>\<open>draw\<close> raises.
\<close>

theorem degenerate_overflow_counterexample:
  "seg_len (points short_overflow_example ! 0) (points short_overflow_example ! 1) < eps
   \<and> fst (draw short_overflow_example []) = Some OverflowError"
proof -
  have u: "[0 ..< nat (int (length (points short_overflow_example)) - 2)] = [0]"
    by (simp add: short_overflow_example_def)
  have t: "tangent_circle (0, 0, 0) (0, 0, 1) (huge, 0, 0) = Inl OverflowError"
    using overflows_huge by (simp add: tangent_circle_eq unit_vectors_eq)
  have w: "draw_window 0 short_overflow_example [] = (Some OverflowError, short_overflow_example, [])"
    by (subst draw_window_eq)
       (simp_all add: short_overflow_example_def Let_def t reference_lines_def)
  have "length (points short_overflow_example) = 3" "debug_points short_overflow_example = []"
    by (simp_all add: short_overflow_example_def debug_points_def)
  then have "draw short_overflow_example [] = (Some OverflowError, short_overflow_example, [])"
    unfolding draw_def Let_def u by (simp add: w)
  moreover have "seg_len (points short_overflow_example ! 0) (points short_overflow_example ! 1) < eps"
    using eps_pos by (simp add: short_overflow_example_def seg_len_def)
  ultimately show ?thesis by simp
qed

end
